theory Spec2Isabelle
  imports Complex_Main "HOL-Library.Multiset"
begin

section \<open>Data model\<close>

text \<open>
  The four antenna types of the table \<^verbatim>\<open>ANTENNA_TYPES\<close>. The source keys the table by
  the type's name; the enumeration is closed, so a lookup never fails.
\<close>

datatype atype = Nano | Spot | Density | MaxRange

fun range_of :: "atype \<Rightarrow> int" where
  "range_of Nano = 50"
| "range_of Spot = 100"
| "range_of Density = 150"
| "range_of MaxRange = 400"

fun capacity :: "atype \<Rightarrow> int" where
  "capacity Nano = 200"
| "capacity Spot = 800"
| "capacity Density = 5000"
| "capacity MaxRange = 3500"

fun cost_on :: "atype \<Rightarrow> int" where
  "cost_on Nano = 5000"
| "cost_on Spot = 15000"
| "cost_on Density = 30000"
| "cost_on MaxRange = 40000"

text \<open>
  A building of the dataset (a JSON object with the keys \<^verbatim>\<open>id\<close>, \<^verbatim>\<open>x\<close>, \<^verbatim>\<open>y\<close> and the three
  population readings) and a placed antenna (\<^verbatim>\<open>type\<close>, \<^verbatim>\<open>x\<close>, \<^verbatim>\<open>y\<close>, \<^verbatim>\<open>buildings\<close>).
  Coordinates and populations are Python integers.
\<close>

record building =
  b_id :: nat
  b_x :: int
  b_y :: int
  populationPeakHours :: int
  populationOffPeakHours :: int
  populationNight :: int

record antenna =
  a_type :: atype
  a_x :: int
  a_y :: int
  a_buildings :: "nat list"

datatype error = KeyError | TypeError | IndexError | ZeroDivisionError | OverflowError

definition get_max_pop :: "building \<Rightarrow> int" where
  "get_max_pop b =
     max (populationPeakHours b) (max (populationOffPeakHours b) (populationNight b))"

definition dist_sq :: "int \<Rightarrow> int \<Rightarrow> int \<Rightarrow> int \<Rightarrow> int" where
  "dist_sq x1 y1 x2 y2 = (x1 - x2) ^ 2 + (y1 - y2) ^ 2"

text \<open>
  \<^verbatim>\<open>bmap = {b['id']: b for b in buildings}\<close>: a later building with the same id
  replaces an earlier one.
\<close>

definition mk_bmap :: "building list \<Rightarrow> (nat \<rightharpoonup> building)" where
  "mk_bmap buildings = foldl (\<lambda>m b. m(b_id b \<mapsto> b)) Map.empty buildings"

text \<open>
  \<^verbatim>\<open>[bmap[bid] for bid in bids]\<close>: the first id that is not a key raises \<^verbatim>\<open>KeyError\<close>.
\<close>

fun lookup_all :: "(nat \<rightharpoonup> building) \<Rightarrow> nat list \<Rightarrow> error + building list" where
  "lookup_all bmap [] = Inr []"
| "lookup_all bmap (bid # bids) =
     (case bmap bid of
        None \<Rightarrow> Inl KeyError
      | Some b \<Rightarrow> (case lookup_all bmap bids of
                    Inl e \<Rightarrow> Inl e
                  | Inr blds \<Rightarrow> Inr (b # blds)))"

definition calculate_cost :: "antenna list \<Rightarrow> int" where
  "calculate_cost antennas = sum_list (map (\<lambda>a. cost_on (a_type a)) antennas)"

section \<open>Type downgrade: \<^verbatim>\<open>optimize_types\<close>\<close>

text \<open>
  One pass of the inner loop \<^verbatim>\<open>for atype in ['Nano', 'Spot', 'MaxRange', 'Density']\<close>
  over the pair \<^verbatim>\<open>(best_type, best_cost)\<close>.
\<close>

definition type_step ::
  "antenna \<Rightarrow> building list \<Rightarrow> int \<Rightarrow> atype \<times> int \<Rightarrow> atype \<Rightarrow> atype \<times> int" where
  "type_step ant blds total_pop best atype =
     (if capacity atype < total_pop then best
      else
        let all_ok = list_all (\<lambda>b. dist_sq (a_x ant) (a_y ant) (b_x b) (b_y b)
                                      \<le> (range_of atype) ^ 2) blds
        in if all_ok \<and> cost_on atype < snd best then (atype, cost_on atype) else best)"

definition optimize_one :: "(nat \<rightharpoonup> building) \<Rightarrow> antenna \<Rightarrow> error + antenna" where
  "optimize_one bmap ant =
     (case lookup_all bmap (a_buildings ant) of
        Inl e \<Rightarrow> Inl e
      | Inr blds \<Rightarrow>
          let total_pop = sum_list (map get_max_pop blds);
              best = foldl (type_step ant blds total_pop)
                       (a_type ant, cost_on (a_type ant)) [Nano, Spot, MaxRange, Density]
          in Inr \<lparr>a_type = fst best, a_x = a_x ant, a_y = a_y ant,
                  a_buildings = a_buildings ant\<rparr>)"

fun optimize_loop :: "(nat \<rightharpoonup> building) \<Rightarrow> antenna list \<Rightarrow> error + antenna list" where
  "optimize_loop bmap [] = Inr []"
| "optimize_loop bmap (ant # rest) =
     (case optimize_one bmap ant of
        Inl e \<Rightarrow> Inl e
      | Inr ant' \<Rightarrow> (case optimize_loop bmap rest of
                       Inl e \<Rightarrow> Inl e
                     | Inr result \<Rightarrow> Inr (ant' # result)))"

definition optimize_types :: "antenna list \<Rightarrow> building list \<Rightarrow> error + antenna list" where
  "optimize_types solution dataset = optimize_loop (mk_bmap dataset) solution"

text \<open>
  A type fits an antenna when the buildings of the antenna are all known, their total
  demand is within the type's capacity and each lies within the type's radius of the
  antenna's position.
\<close>

definition type_fits :: "(nat \<rightharpoonup> building) \<Rightarrow> antenna \<Rightarrow> atype \<Rightarrow> bool" where
  "type_fits bmap ant t =
     (case lookup_all bmap (a_buildings ant) of
        Inl e \<Rightarrow> False
      | Inr blds \<Rightarrow>
          sum_list (map get_max_pop blds) \<le> capacity t \<and>
          list_all (\<lambda>b. dist_sq (a_x ant) (a_y ant) (b_x b) (b_y b) \<le> (range_of t) ^ 2) blds)"

section \<open>Spatial index: \<^verbatim>\<open>SpatialGrid\<close>\<close>

text \<open>
  The grid is a \<^verbatim>\<open>defaultdict(list)\<close> keyed by the cell: a function from cells to id
  lists that is empty off the populated cells. \<^verbatim>\<open>//\<close> is floor division, which is
  \<open>div\<close> on \<open>int\<close>; it raises \<^verbatim>\<open>ZeroDivisionError\<close> for a zero cell size.
\<close>

record spatial_grid =
  cell_size :: int
  grid :: "int \<times> int \<Rightarrow> nat list"
  g_bmap :: "nat \<rightharpoonup> building"

definition grid_add :: "int \<Rightarrow> (int \<times> int \<Rightarrow> nat list) \<Rightarrow> building \<Rightarrow> (int \<times> int \<Rightarrow> nat list)" where
  "grid_add cs g b =
     (let cell = (b_x b div cs, b_y b div cs) in g(cell := g cell @ [b_id b]))"

definition SpatialGrid_init :: "building list \<Rightarrow> int \<Rightarrow> error + spatial_grid" where
  "SpatialGrid_init buildings cs =
     (if cs = 0 \<and> buildings \<noteq> [] then Inl ZeroDivisionError
      else Inr \<lparr>cell_size = cs,
                grid = foldl (grid_add cs) (\<lambda>cell. []) buildings,
                g_bmap = mk_bmap buildings\<rparr>)"

text \<open>
  \<^verbatim>\<open>int(radius / self.cell_size)\<close>: the true quotient, truncated towards zero. (Python
  forms the quotient in double precision; for integers below \<open>2 ^ 52\<close> the truncation of
  the rounded quotient is the truncation of the exact one.)
\<close>

definition trunc_div :: "int \<Rightarrow> int \<Rightarrow> int" where
  "trunc_div a b =
     (if (a < 0) = (b < 0) then \<bar>a\<bar> div \<bar>b\<bar> else - (\<bar>a\<bar> div \<bar>b\<bar>))"

text \<open>The innermost loop, over the ids of one cell.\<close>

fun scan_ids ::
  "(nat \<rightharpoonup> building) \<Rightarrow> int \<Rightarrow> int \<Rightarrow> int \<Rightarrow> nat set \<Rightarrow> nat list \<Rightarrow> error + nat list" where
  "scan_ids bmap x y r2 exclude [] = Inr []"
| "scan_ids bmap x y r2 exclude (bid # bids) =
     (if bid \<in> exclude then scan_ids bmap x y r2 exclude bids
      else case bmap bid of
        None \<Rightarrow> Inl KeyError
      | Some b \<Rightarrow>
         (case scan_ids bmap x y r2 exclude bids of
            Inl e \<Rightarrow> Inl e
          | Inr result \<Rightarrow>
              Inr (if dist_sq x y (b_x b) (b_y b) \<le> r2 then bid # result else result)))"

text \<open>The two outer loops, over the cells of the window in the order they are visited.\<close>

fun scan_cells ::
  "spatial_grid \<Rightarrow> int \<Rightarrow> int \<Rightarrow> int \<Rightarrow> nat set \<Rightarrow> (int \<times> int) list \<Rightarrow> error + nat list" where
  "scan_cells self x y r2 exclude [] = Inr []"
| "scan_cells self x y r2 exclude (cell # cells) =
     (case scan_ids (g_bmap self) x y r2 exclude (grid self cell) of
        Inl e \<Rightarrow> Inl e
      | Inr found \<Rightarrow>
         (case scan_cells self x y r2 exclude cells of
            Inl e \<Rightarrow> Inl e
          | Inr result \<Rightarrow> Inr (found @ result)))"

definition get_in_range ::
  "spatial_grid \<Rightarrow> int \<Rightarrow> int \<Rightarrow> int \<Rightarrow> nat set \<Rightarrow> error + nat list" where
  "get_in_range self x y radius exclude =
     (if cell_size self = 0 then Inl ZeroDivisionError
      else
        let cells = trunc_div radius (cell_size self) + 1;
            cx = x div cell_size self;
            cy = y div cell_size self;
            r2 = radius * radius
        in scan_cells self x y r2 exclude
             (concat (map (\<lambda>dx. map (\<lambda>dy. (cx + dx, cy + dy)) [- cells..cells])
                          [- cells..cells])))"

section \<open>Greedy constructor: \<^verbatim>\<open>find_best_antenna\<close> and \<^verbatim>\<open>solve_advanced\<close>\<close>

text \<open>
  \<^verbatim>\<open>uncovered_ids\<close> is a Python set; it is modelled by the list of its elements in the
  order the set iterates them.  The loop below collects \<^verbatim>\<open>in_range\<close> for one type.
\<close>

fun in_range_scan ::
  "(nat \<rightharpoonup> building) \<Rightarrow> int \<Rightarrow> int \<Rightarrow> atype \<Rightarrow> nat list \<Rightarrow> error + (nat \<times> int) list" where
  "in_range_scan bmap x y atype [] = Inr []"
| "in_range_scan bmap x y atype (bid # bids) =
     (case bmap bid of
        None \<Rightarrow> Inl KeyError
      | Some b \<Rightarrow>
         (case in_range_scan bmap x y atype bids of
            Inl e \<Rightarrow> Inl e
          | Inr in_range \<Rightarrow>
              Inr (if dist_sq x y (b_x b) (b_y b) \<le> (range_of atype) ^ 2
                   then (bid, get_max_pop b) # in_range else in_range)))"

text \<open>
  The packing loop over the sorted pairs, on the state \<^verbatim>\<open>(selected, total_pop)\<close>.
\<close>

fun pack :: "int \<Rightarrow> (nat \<times> int) list \<Rightarrow> nat list \<times> int \<Rightarrow> nat list \<times> int" where
  "pack cap [] acc = acc"
| "pack cap ((bid, pop) # rest) (selected, total_pop) =
     (if total_pop + pop \<le> cap
      then pack cap rest (selected @ [bid], total_pop + pop)
      else pack cap rest (selected, total_pop))"

text \<open>
  The score is computed in double precision: \<^verbatim>\<open>/\<close> on two integers is the correctly
  rounded quotient, which raises \<^verbatim>\<open>OverflowError\<close> when it is out of the range of a
  double and \<^verbatim>\<open>ZeroDivisionError\<close> for a zero divisor; the product with \<^verbatim>\<open>1000\<close> and
  the sum are those of doubles. The arithmetic is a parameter of the model: \<open>'s\<close> is
  the type of the numbers that scores are, with the order in which Python compares
  them (a score is never a NaN, since no operand of the product or of the sum is
  infinite), \<open>s_truediv\<close> is \<^verbatim>\<open>/\<close> on integers, \<open>s_mul\<close> the product of a float and an
  integer, \<open>s_add\<close> the sum of two floats and \<open>s_minus_one\<close> the integer \<^verbatim>\<open>-1\<close> that
  \<^verbatim>\<open>best_score\<close> starts from. The argument \<open>selected\<close> stands for
  \<^verbatim>\<open>len(selected)\<close>.
\<close>

record 's score_ops =
  s_truediv :: "int \<Rightarrow> int \<Rightarrow> error + 's"
  s_mul :: "'s \<Rightarrow> int \<Rightarrow> 's"
  s_add :: "'s \<Rightarrow> 's \<Rightarrow> 's"
  s_minus_one :: "'s"

definition score :: "'s score_ops \<Rightarrow> bool \<Rightarrow> nat list \<Rightarrow> int \<Rightarrow> int \<Rightarrow> error + 's" where
  "score ops prefer_capacity selected total_pop cost =
     (if prefer_capacity
      then (case s_truediv ops total_pop cost of
              Inl e \<Rightarrow> Inl e
            | Inr q \<Rightarrow> Inr (s_mul ops q 1000))
      else (case s_truediv ops (int (length selected) * 10000) cost of
              Inl e \<Rightarrow> Inl e
            | Inr q1 \<Rightarrow>
               (case s_truediv ops total_pop cost of
                  Inl e \<Rightarrow> Inl e
                | Inr q2 \<Rightarrow> Inr (s_add ops q1 q2))))"

type_synonym 's best_cfg = "(atype \<times> nat list \<times> 's) option \<times> 's"

definition fba_type ::
  "('s::linorder) score_ops \<Rightarrow> (nat \<rightharpoonup> building) \<Rightarrow> int \<Rightarrow> int \<Rightarrow> nat list \<Rightarrow> bool
     \<Rightarrow> 's best_cfg \<Rightarrow> atype \<Rightarrow> error + 's best_cfg" where
  "fba_type ops bmap x y uncovered_ids prefer_capacity st atype =
     (case in_range_scan bmap x y atype uncovered_ids of
        Inl e \<Rightarrow> Inl e
      | Inr in_range \<Rightarrow>
          if in_range = [] then Inr st
          else
            let (selected, total_pop) = pack (capacity atype) (sort_key snd in_range) ([], 0)
            in if selected = [] then Inr st
               else
                 (case score ops prefer_capacity selected total_pop (cost_on atype) of
                    Inl e \<Rightarrow> Inl e
                  | Inr sc \<Rightarrow>
                      if sc > snd st then Inr (Some (atype, selected, sc), sc) else Inr st))"

fun fba_loop ::
  "('s::linorder) score_ops \<Rightarrow> (nat \<rightharpoonup> building) \<Rightarrow> int \<Rightarrow> int \<Rightarrow> nat list \<Rightarrow> bool
     \<Rightarrow> 's best_cfg \<Rightarrow> atype list \<Rightarrow> error + 's best_cfg" where
  "fba_loop ops bmap x y uncovered_ids prefer_capacity st [] = Inr st"
| "fba_loop ops bmap x y uncovered_ids prefer_capacity st (atype # rest) =
     (case fba_type ops bmap x y uncovered_ids prefer_capacity st atype of
        Inl e \<Rightarrow> Inl e
      | Inr st' \<Rightarrow> fba_loop ops bmap x y uncovered_ids prefer_capacity st' rest)"

definition find_best_antenna ::
  "('s::linorder) score_ops \<Rightarrow> int \<Rightarrow> int \<Rightarrow> nat list \<Rightarrow> (nat \<rightharpoonup> building) \<Rightarrow> bool
     \<Rightarrow> error + (atype \<times> nat list \<times> 's) option" where
  "find_best_antenna ops x y uncovered_ids bmap prefer_capacity =
     (case fba_loop ops bmap x y uncovered_ids prefer_capacity (None, s_minus_one ops)
             [Density, MaxRange, Spot, Nano] of
        Inl e \<Rightarrow> Inl e
      | Inr (best, best_score) \<Rightarrow> Inr best)"





subsection \<open>The covering loop of phase 2\<close>














section \<open>Pairwise merge: \<^verbatim>\<open>try_merge_antennas\<close>\<close>

text \<open>
  The positions and types that the two innermost \<^verbatim>\<open>for\<close> loops try for a pair of
  antennas, in the order they try them.
\<close>

definition merge_candidates :: "antenna \<Rightarrow> antenna \<Rightarrow> ((int \<times> int) \<times> atype) list" where
  "merge_candidates a1 a2 =
     concat (map (\<lambda>pos. map (\<lambda>atype. (pos, atype)) [Density, MaxRange, Spot, Nano])
                 [(a_x a1, a_y a1), (a_x a2, a_y a2)])"

text \<open>
  The body of the loop over \<^verbatim>\<open>j\<close>: the merged antenna of the first position and type
  that pass the capacity test, the range test and the cost test, if there is one.
\<close>

definition try_pair :: "(nat \<rightharpoonup> building) \<Rightarrow> antenna \<Rightarrow> antenna \<Rightarrow> error + antenna option" where
  "try_pair bmap a1 a2 =
     (let all_bids = a_buildings a1 @ a_buildings a2
      in case lookup_all bmap all_bids of
           Inl e \<Rightarrow> Inl e
         | Inr all_blds \<Rightarrow>
            (let total_pop = sum_list (map get_max_pop all_blds);
                 old_cost = cost_on (a_type a1) + cost_on (a_type a2)
             in case find (\<lambda>(pos, atype).
                            \<not> capacity atype < total_pop \<and>
                            list_all (\<lambda>b. dist_sq (fst pos) (snd pos) (b_x b) (b_y b)
                                            \<le> (range_of atype) ^ 2) all_blds \<and>
                            cost_on atype < old_cost)
                          (merge_candidates a1 a2) of
                  None \<Rightarrow> Inr None
                | Some (pos, atype) \<Rightarrow>
                    Inr (Some \<lparr>a_type = atype, a_x = fst pos, a_y = snd pos,
                               a_buildings = all_bids\<rparr>)))"

text \<open>\<^verbatim>\<open>antennas.pop(j)\<close>.\<close>

definition pop :: "nat \<Rightarrow> 'a list \<Rightarrow> 'a list" where
  "pop j xs = take j xs @ drop (Suc j) xs"

text \<open>
  The loops \<^verbatim>\<open>while j < len(antennas)\<close> and \<^verbatim>\<open>while i < len(antennas)\<close>. Each
  returns the antenna list after the first merge it commits, or \<open>None\<close> when it
  commits none (\<^verbatim>\<open>improved\<close> stays \<^verbatim>\<open>False\<close>).
\<close>

function scan_j ::
  "(nat \<rightharpoonup> building) \<Rightarrow> antenna list \<Rightarrow> nat \<Rightarrow> nat \<Rightarrow> error + antenna list option" where
  "scan_j bmap antennas i j =
     (if j < length antennas then
        case try_pair bmap (antennas ! i) (antennas ! j) of
          Inl e \<Rightarrow> Inl e
        | Inr (Some merged) \<Rightarrow> Inr (Some (pop j (antennas[i := merged])))
        | Inr None \<Rightarrow> scan_j bmap antennas i (j + 1)
      else Inr None)"
  by pat_completeness auto
termination
  by (relation "measure (\<lambda>(bmap, antennas, i, j). length antennas - j)") auto

function scan_i ::
  "(nat \<rightharpoonup> building) \<Rightarrow> antenna list \<Rightarrow> nat \<Rightarrow> error + antenna list option" where
  "scan_i bmap antennas i =
     (if i < length antennas then
        case scan_j bmap antennas i (i + 1) of
          Inl e \<Rightarrow> Inl e
        | Inr (Some antennas') \<Rightarrow> Inr (Some antennas')
        | Inr None \<Rightarrow> scan_i bmap antennas (i + 1)
      else Inr None)"
  by pat_completeness auto
termination
  by (relation "measure (\<lambda>(bmap, antennas, i). length antennas - i)") auto

subsection \<open>The loop \<^verbatim>\<open>while improved\<close>\<close>

text \<open>
  A committed merge replaces one antenna and removes another, so the list gets
  shorter; this is what ends the loop, and it is proved ahead of the loop.
\<close>

declare scan_j.simps [simp del] scan_i.simps [simp del]

lemma length_pop: "j < length xs \<Longrightarrow> length (pop j xs) < length xs"
  by (simp add: pop_def)

lemma scan_j_length:
  "scan_j bmap antennas i j = Inr (Some antennas') \<Longrightarrow> length antennas' < length antennas"
proof (induction bmap antennas i j rule: scan_j.induct)
  case (1 bmap antennas i j)
  show ?case
  proof (cases "j < length antennas")
    case True
    with "1.prems" "1.IH" show ?thesis
      by (subst (asm) scan_j.simps) (auto simp: pop_def split: sum.splits option.splits)
  next
    case False
    with "1.prems" show ?thesis by (subst (asm) scan_j.simps) simp
  qed
qed

lemma scan_i_length:
  "scan_i bmap antennas i = Inr (Some antennas') \<Longrightarrow> length antennas' < length antennas"
proof (induction bmap antennas i rule: scan_i.induct)
  case (1 bmap antennas i)
  show ?case
  proof (cases "i < length antennas")
    case True
    with "1.prems" "1.IH" show ?thesis
      by (subst (asm) scan_i.simps) (auto dest: scan_j_length split: sum.splits option.splits)
  next
    case False
    with "1.prems" show ?thesis by (subst (asm) scan_i.simps) simp
  qed
qed

function try_merge_loop :: "(nat \<rightharpoonup> building) \<Rightarrow> antenna list \<Rightarrow> error + antenna list" where
  "try_merge_loop bmap antennas =
     (case scan_i bmap antennas 0 of
        Inl e \<Rightarrow> Inl e
      | Inr None \<Rightarrow> Inr antennas
      | Inr (Some antennas') \<Rightarrow> try_merge_loop bmap antennas')"
  by pat_completeness auto
termination
proof (relation "measure (\<lambda>(bmap, antennas). length antennas)", goal_cases)
  case 1
  show ?case by simp
next
  case (2 bmap antennas r antennas')
  from scan_i_length[OF 2(1)[unfolded 2(2)]] show ?case by simp
qed

declare try_merge_loop.simps [simp del]

definition try_merge_antennas :: "antenna list \<Rightarrow> building list \<Rightarrow> error + antenna list" where
  "try_merge_antennas solution dataset = try_merge_loop (mk_bmap dataset) solution"

section \<open>The pseudo-random generator\<close>

text \<open>
  The state of the generator is the sequence of the raw draws it will deliver.
  \<^verbatim>\<open>_randbelow(n)\<close> delivers a number below \<open>n\<close>, \<^verbatim>\<open>random.choice\<close> indexes its
  argument with \<^verbatim>\<open>_randbelow(len(seq))\<close> and raises \<^verbatim>\<open>IndexError\<close> on an empty
  sequence, \<^verbatim>\<open>random.shuffle\<close> swaps element \<open>i\<close> with element \<^verbatim>\<open>_randbelow(i + 1)\<close>
  for \<open>i\<close> from the last index down to 1, and \<^verbatim>\<open>random.random()\<close> delivers
  \<open>k / 2 ^ 53\<close> for a 53-bit number \<open>k\<close>. Every outcome of the library functions is
  the outcome of the model for some sequence of draws.
\<close>

type_synonym rng = "nat \<Rightarrow> nat"

definition rng_next :: "rng \<Rightarrow> rng" where
  "rng_next g = (\<lambda>n. g (Suc n))"

definition randbelow :: "nat \<Rightarrow> rng \<Rightarrow> nat \<times> rng" where
  "randbelow n g = (g 0 mod n, rng_next g)"

definition choice :: "'a list \<Rightarrow> rng \<Rightarrow> error + ('a \<times> rng)" where
  "choice xs g =
     (if xs = [] then Inl IndexError
      else let (k, g') = randbelow (length xs) g in Inr (xs ! k, g'))"

fun shuffle_loop :: "nat \<Rightarrow> 'a list \<Rightarrow> rng \<Rightarrow> 'a list \<times> rng" where
  "shuffle_loop 0 xs g = (xs, g)"
| "shuffle_loop (Suc i) xs g =
     (let (j, g') = randbelow (Suc i + 1) g
      in shuffle_loop i (xs[Suc i := xs ! j, j := xs ! Suc i]) g')"

definition shuffle :: "'a list \<Rightarrow> rng \<Rightarrow> 'a list \<times> rng" where
  "shuffle xs g = shuffle_loop (length xs - 1) xs g"

definition random_float :: "rng \<Rightarrow> real \<times> rng" where
  "random_float g = (real (g 0 mod 2 ^ 53) / 2 ^ 53, rng_next g)"

section \<open>Annealing operators\<close>

text \<open>
  \<^verbatim>\<open>TYPE_ORDER\<close> and \<^verbatim>\<open>get_cheapest_valid_type\<close>: the first type of the order whose
  capacity holds the total demand and whose radius reaches every building.
\<close>

definition TYPE_ORDER :: "atype list" where
  "TYPE_ORDER = [Nano, Spot, Density, MaxRange]"

definition get_cheapest_valid_type ::
  "antenna \<Rightarrow> (nat \<rightharpoonup> building) \<Rightarrow> error + atype option" where
  "get_cheapest_valid_type ant bmap =
     (case lookup_all bmap (a_buildings ant) of
        Inl e \<Rightarrow> Inl e
      | Inr blds \<Rightarrow>
          let total_pop = sum_list (map get_max_pop blds)
          in Inr (find (\<lambda>atype.
                     \<not> capacity atype < total_pop \<and>
                     list_all (\<lambda>b. dist_sq (a_x ant) (a_y ant) (b_x b) (b_y b)
                                     \<le> (range_of atype) ^ 2) blds)
                   TYPE_ORDER))"


text \<open>
  \<^verbatim>\<open>[a for k, a in enumerate(antennas) if k != i and k != j]\<close>.
\<close>

definition without :: "nat \<Rightarrow> nat \<Rightarrow> 'a list \<Rightarrow> 'a list" where
  "without i j xs = map snd (filter (\<lambda>(k, a). k \<noteq> i \<and> k \<noteq> j) (enumerate 0 xs))"

subsection \<open>Distance tests\<close>

text \<open>
  The tests \<^verbatim>\<open>dist(...) > 400\<close> and \<^verbatim>\<open>dist(...) > 800\<close>. \<^verbatim>\<open>math.sqrt\<close> converts
  the integer \<^verbatim>\<open>dist_sq\<close> to a double, which raises \<^verbatim>\<open>OverflowError\<close> from
  \<open>2 ^ 1024 - 2 ^ 970\<close> on, and takes the correctly rounded square root. Compared with
  the integers 400 and 800 the rounded root of an integer decides as the integer
  comparison of the squares does: a square up to \<open>r\<^sup>2\<close> has a root up to \<open>r\<close>, and the
  root of \<open>r\<^sup>2 + 1\<close> is above \<open>r\<close> by more than the rounding.
\<close>

definition dist_exceeds :: "int \<Rightarrow> int \<Rightarrow> int \<Rightarrow> int \<Rightarrow> int \<Rightarrow> error + bool" where
  "dist_exceeds x1 y1 x2 y2 r =
     (if dist_sq x1 y1 x2 y2 \<ge> 2 ^ 1024 - 2 ^ 970 then Inl OverflowError
      else Inr (dist_sq x1 y1 x2 y2 > r * r))"

subsection \<open>\<^verbatim>\<open>move_building\<close>\<close>

text \<open>The loop \<^verbatim>\<open>for tgt_idx in indices\<close>.\<close>

fun move_targets ::
  "antenna list \<Rightarrow> (nat \<rightharpoonup> building) \<Rightarrow> nat \<Rightarrow> nat \<Rightarrow> building \<Rightarrow> nat list
     \<Rightarrow> error + antenna list option" where
  "move_targets antennas bmap src_idx bid b [] = Inr None"
| "move_targets antennas bmap src_idx bid b (tgt_idx # indices) =
     (if tgt_idx = src_idx then move_targets antennas bmap src_idx bid b indices
      else
        let tgt_ant = antennas ! tgt_idx;
            src_ant = antennas ! src_idx
        in case dist_exceeds (a_x tgt_ant) (a_y tgt_ant) (b_x b) (b_y b) 400 of
             Inl e \<Rightarrow> Inl e
           | Inr True \<Rightarrow> move_targets antennas bmap src_idx bid b indices
           | Inr False \<Rightarrow>
              (let new_tgt = tgt_ant\<lparr>a_buildings := a_buildings tgt_ant @ [bid]\<rparr>
               in case get_cheapest_valid_type new_tgt bmap of
                    Inl e \<Rightarrow> Inl e
                  | Inr None \<Rightarrow> move_targets antennas bmap src_idx bid b indices
                  | Inr (Some new_type) \<Rightarrow>
                     (let new_src =
                            src_ant\<lparr>a_buildings := remove1 bid (a_buildings src_ant)\<rparr>
                      in case get_cheapest_valid_type new_src bmap of
                           Inl e \<Rightarrow> Inl e
                         | Inr None \<Rightarrow> move_targets antennas bmap src_idx bid b indices
                         | Inr (Some new_src_type) \<Rightarrow>
                             Inr (Some (antennas
                                    [src_idx := new_src\<lparr>a_type := new_src_type\<rparr>,
                                     tgt_idx := new_tgt\<lparr>a_type := new_type\<rparr>])))))"

definition move_building ::
  "rng \<Rightarrow> antenna list \<Rightarrow> (nat \<rightharpoonup> building) \<Rightarrow> error + (antenna list option \<times> rng)" where
  "move_building g antennas bmap =
     (if length antennas < 2 then Inr (None, g)
      else
        let multi_indices =
              filter (\<lambda>i. length (a_buildings (antennas ! i)) > 1) [0..<length antennas]
        in if multi_indices = [] then Inr (None, g)
           else
             case choice multi_indices g of
               Inl e \<Rightarrow> Inl e
             | Inr (src_idx, g1) \<Rightarrow>
                (case choice (a_buildings (antennas ! src_idx)) g1 of
                   Inl e \<Rightarrow> Inl e
                 | Inr (bid, g2) \<Rightarrow>
                    (case bmap bid of
                       None \<Rightarrow> Inl KeyError
                     | Some b \<Rightarrow>
                        (let (indices, g3) = shuffle [0..<length antennas] g2
                         in case move_targets antennas bmap src_idx bid b indices of
                              Inl e \<Rightarrow> Inl e
                            | Inr result \<Rightarrow> Inr (result, g3)))))"

subsection \<open>\<^verbatim>\<open>merge_antennas\<close>\<close>

definition merge_positions :: "antenna \<Rightarrow> antenna \<Rightarrow> (int \<times> int) list" where
  "merge_positions a1 a2 =
     [(a_x a1, a_y a1), (a_x a2, a_y a2),
      ((a_x a1 + a_x a2) div 2, (a_y a1 + a_y a2) div 2)]"

text \<open>
  The loops \<^verbatim>\<open>for px, py in positions\<close> and \<^verbatim>\<open>for atype in TYPE_ORDER\<close> for one pair:
  the first position and type that hold the combined demand within range.
\<close>

definition merge_pair :: "antenna \<Rightarrow> antenna \<Rightarrow> (nat \<rightharpoonup> building) \<Rightarrow> error + antenna option" where
  "merge_pair a1 a2 bmap =
     (let combined_bids = a_buildings a1 @ a_buildings a2
      in case lookup_all bmap combined_bids of
           Inl e \<Rightarrow> Inl e
         | Inr combined_blds \<Rightarrow>
            (let combined_pop = sum_list (map get_max_pop combined_blds)
             in case find (\<lambda>(pos, atype).
                            \<not> combined_pop > capacity atype \<and>
                            list_all (\<lambda>b. dist_sq (fst pos) (snd pos) (b_x b) (b_y b)
                                            \<le> (range_of atype) ^ 2) combined_blds)
                          (concat (map (\<lambda>pos. map (\<lambda>atype. (pos, atype)) TYPE_ORDER)
                                       (merge_positions a1 a2))) of
                  None \<Rightarrow> Inr None
                | Some (pos, atype) \<Rightarrow>
                    Inr (Some \<lparr>a_type = atype, a_x = fst pos, a_y = snd pos,
                               a_buildings = combined_bids\<rparr>)))"

text \<open>
  The loops \<^verbatim>\<open>for i in indices[:20]\<close> and \<^verbatim>\<open>for j in indices[:20]\<close>, over the pairs in
  the order they are visited.
\<close>

fun merge_pairs ::
  "antenna list \<Rightarrow> (nat \<rightharpoonup> building) \<Rightarrow> (nat \<times> nat) list \<Rightarrow> error + antenna list option" where
  "merge_pairs antennas bmap [] = Inr None"
| "merge_pairs antennas bmap ((i, j) # pairs) =
     (if j \<le> i then merge_pairs antennas bmap pairs
      else
        let a1 = antennas ! i; a2 = antennas ! j
        in case dist_exceeds (a_x a1) (a_y a1) (a_x a2) (a_y a2) 800 of
             Inl e \<Rightarrow> Inl e
           | Inr True \<Rightarrow> merge_pairs antennas bmap pairs
           | Inr False \<Rightarrow>
              (case merge_pair a1 a2 bmap of
                 Inl e \<Rightarrow> Inl e
               | Inr None \<Rightarrow> merge_pairs antennas bmap pairs
               | Inr (Some merged) \<Rightarrow> Inr (Some (without i j antennas @ [merged]))))"

definition merge_antennas ::
  "rng \<Rightarrow> antenna list \<Rightarrow> (nat \<rightharpoonup> building) \<Rightarrow> error + (antenna list option \<times> rng)" where
  "merge_antennas g antennas bmap =
     (if length antennas < 2 then Inr (None, g)
      else
        let (indices, g1) = shuffle [0..<length antennas] g;
            first20 = take 20 indices
        in case merge_pairs antennas bmap
                  (concat (map (\<lambda>i. map (\<lambda>j. (i, j)) first20) first20)) of
             Inl e \<Rightarrow> Inl e
           | Inr result \<Rightarrow> Inr (result, g1))"

subsection \<open>\<^verbatim>\<open>split_antenna\<close>\<close>

text \<open>
  The centroid \<^verbatim>\<open>sum(b['x'] for b in blds) // len(blds)\<close>; the division raises
  \<^verbatim>\<open>ZeroDivisionError\<close> for an empty list.
\<close>

definition centroid :: "building list \<Rightarrow> error + (int \<times> int)" where
  "centroid blds =
     (if blds = [] then Inl ZeroDivisionError
      else Inr (sum_list (map b_x blds) div int (length blds),
                sum_list (map b_y blds) div int (length blds)))"

definition split_antenna ::
  "rng \<Rightarrow> antenna list \<Rightarrow> (nat \<rightharpoonup> building) \<Rightarrow> error + (antenna list option \<times> rng)" where
  "split_antenna g antennas bmap =
     (let multi_indices =
            filter (\<lambda>i. length (a_buildings (antennas ! i)) \<ge> 2) [0..<length antennas]
      in if multi_indices = [] then Inr (None, g)
         else
           case choice multi_indices g of
             Inl e \<Rightarrow> Inl e
           | Inr (idx, g1) \<Rightarrow>
              (let ant = antennas ! idx;
                   (bids, g2) = shuffle (a_buildings ant) g1;
                   mid0 = length bids div 2;
                   mid = (if mid0 = 0 then 1 else mid0);
                   bids1 = take mid bids;
                   bids2 = drop mid bids
               in case lookup_all bmap bids1 of
                    Inl e \<Rightarrow> Inl e
                  | Inr blds1 \<Rightarrow>
                     (case lookup_all bmap bids2 of
                        Inl e \<Rightarrow> Inl e
                      | Inr blds2 \<Rightarrow>
                         (case centroid blds1 of
                            Inl e \<Rightarrow> Inl e
                          | Inr (x1, y1) \<Rightarrow>
                             (case centroid blds2 of
                                Inl e \<Rightarrow> Inl e
                              | Inr (x2, y2) \<Rightarrow>
                                 (let ant1 = \<lparr>a_type = Density, a_x = x1, a_y = y1,
                                              a_buildings = bids1\<rparr>;
                                      ant2 = \<lparr>a_type = Density, a_x = x2, a_y = y2,
                                              a_buildings = bids2\<rparr>
                                  in case get_cheapest_valid_type ant1 bmap of
                                       Inl e \<Rightarrow> Inl e
                                     | Inr type1 \<Rightarrow>
                                        (case get_cheapest_valid_type ant2 bmap of
                                           Inl e \<Rightarrow> Inl e
                                         | Inr type2 \<Rightarrow>
                                            (case (type1, type2) of
                                               (Some t1, Some t2) \<Rightarrow>
                                                 Inr (Some (without idx idx antennas @
                                                        [ant1\<lparr>a_type := t1\<rparr>,
                                                         ant2\<lparr>a_type := t2\<rparr>]), g2)
                                             | _ \<Rightarrow> Inr (None, g2)))))))))"

subsection \<open>\<^verbatim>\<open>relocate_antenna\<close>\<close>

definition relocate_antenna ::
  "rng \<Rightarrow> antenna list \<Rightarrow> (nat \<rightharpoonup> building) \<Rightarrow> error + (antenna list option \<times> rng)" where
  "relocate_antenna g antennas bmap =
     (if antennas = [] then Inr (None, g)
      else
        let (idx, g1) = randbelow (length antennas) g;
            ant = antennas ! idx
        in case lookup_all bmap (a_buildings ant) of
             Inl e \<Rightarrow> Inl e
           | Inr blds \<Rightarrow>
              (case choice blds g1 of
                 Inl e \<Rightarrow> Inl e
               | Inr (target_b, g2) \<Rightarrow>
                  (let new_ant = ant\<lparr>a_x := b_x target_b, a_y := b_y target_b\<rparr>
                   in case get_cheapest_valid_type new_ant bmap of
                        Inl e \<Rightarrow> Inl e
                      | Inr None \<Rightarrow> Inr (None, g2)
                      | Inr (Some new_type) \<Rightarrow>
                          Inr (Some (antennas[idx := new_ant\<lparr>a_type := new_type\<rparr>]), g2))))"

subsection \<open>\<^verbatim>\<open>random_neighbor\<close>\<close>

datatype move = MoveBuilding | MergeAntennas | SplitAntenna | RelocateAntenna

fun apply_move ::
  "move \<Rightarrow> rng \<Rightarrow> antenna list \<Rightarrow> (nat \<rightharpoonup> building) \<Rightarrow> error + (antenna list option \<times> rng)" where
  "apply_move MoveBuilding g antennas bmap = move_building g antennas bmap"
| "apply_move MergeAntennas g antennas bmap = merge_antennas g antennas bmap"
| "apply_move SplitAntenna g antennas bmap = split_antenna g antennas bmap"
| "apply_move RelocateAntenna g antennas bmap = relocate_antenna g antennas bmap"

text \<open>
  The list \<^verbatim>\<open>moves\<close>, each move with the value that \<^verbatim>\<open>cumulative\<close> has once its
  weight is added. Python adds the weights 0.4, 0.3, 0.15 and 0.15 in double
  precision; the sums are the doubles written 0.4, 0.7, 0.85 and 1.0, whose exact
  values are the fractions below.
\<close>

definition moves :: "(move \<times> real) list" where
  "moves = [(MoveBuilding, 3602879701896397 / 2 ^ 53),
            (MergeAntennas, 3152519739159347 / 2 ^ 52),
            (SplitAntenna, 7656119366529843 / 2 ^ 53),
            (RelocateAntenna, 1)]"

text \<open>
  The first loop up to its call: the first move whose cumulative weight is above
  \<^verbatim>\<open>r\<close>. The draw \<^verbatim>\<open>r\<close> is a double \<open>k / 2 ^ 53\<close>, so the comparison of doubles is
  the comparison of these fractions.
\<close>

fun pick_move :: "real \<Rightarrow> (move \<times> real) list \<Rightarrow> move option" where
  "pick_move r [] = None"
| "pick_move r ((move_func, cumulative) # rest) =
     (if r < cumulative then Some move_func else pick_move r rest)"

text \<open>\<^verbatim>\<open>if result\<close>: neither \<^verbatim>\<open>None\<close> nor an empty list.\<close>

definition truthy :: "antenna list option \<Rightarrow> bool" where
  "truthy result = (case result of None \<Rightarrow> False | Some antennas \<Rightarrow> antennas \<noteq> [])"

text \<open>The second loop, \<^verbatim>\<open># Fallback: try all moves\<close>.\<close>

fun try_all_moves ::
  "rng \<Rightarrow> antenna list \<Rightarrow> (nat \<rightharpoonup> building) \<Rightarrow> move list
     \<Rightarrow> error + (antenna list option \<times> rng)" where
  "try_all_moves g antennas bmap [] = Inr (None, g)"
| "try_all_moves g antennas bmap (move_func # rest) =
     (case apply_move move_func g antennas bmap of
        Inl e \<Rightarrow> Inl e
      | Inr (result, g') \<Rightarrow>
          if truthy result then Inr (result, g')
          else try_all_moves g' antennas bmap rest)"

definition random_neighbor ::
  "rng \<Rightarrow> antenna list \<Rightarrow> (nat \<rightharpoonup> building) \<Rightarrow> error + (antenna list option \<times> rng)" where
  "random_neighbor g antennas bmap =
     (let (r, g1) = random_float g
      in case pick_move r moves of
           None \<Rightarrow> try_all_moves g1 antennas bmap (map fst moves)
         | Some move_func \<Rightarrow>
            (case apply_move move_func g1 antennas bmap of
               Inl e \<Rightarrow> Inl e
             | Inr (result, g2) \<Rightarrow>
                 if truthy result then Inr (result, g2)
                 else try_all_moves g2 antennas bmap (map fst moves)))"

section \<open>Annealing driver: \<^verbatim>\<open>simulated_annealing\<close>\<close>

text \<open>
  The temperature, the cooling rate, the floor and the draws of \<^verbatim>\<open>random.random()\<close>
  are Python floats. Double-precision arithmetic is not modelled: the driver takes
  the operations it performs on floats as a parameter, a record of
  \<^item> \<open>f_mul\<close>, the product \<^verbatim>\<open>temp * cooling_rate\<close> (\<^verbatim>\<open>OverflowError\<close> when an integer
    operand is too large for a double),
  \<^item> \<open>f_gt\<close>, the test \<^verbatim>\<open>temp > min_temp\<close>,
  \<^item> \<open>f_neg_div\<close>, the quotient \<^verbatim>\<open>-delta / temp\<close> of the integer \<^verbatim>\<open>delta\<close>
    (\<^verbatim>\<open>ZeroDivisionError\<close> for a zero temperature),
  \<^item> \<open>f_exp\<close>, \<^verbatim>\<open>math.exp\<close> (\<^verbatim>\<open>OverflowError\<close> when the value is beyond the doubles),
  \<^item> \<open>f_lt\<close>, the test \<^verbatim>\<open>random.random() < ...\<close>.
  Everything proved of the driver holds for every such record, so also for the
  operations of double precision.
\<close>

record 't float_ops =
  f_mul :: "'t \<Rightarrow> 't \<Rightarrow> error + 't"
  f_gt :: "'t \<Rightarrow> 't \<Rightarrow> bool"
  f_neg_div :: "int \<Rightarrow> 't \<Rightarrow> error + 't"
  f_exp :: "'t \<Rightarrow> error + 't"
  f_lt :: "'t \<Rightarrow> 't \<Rightarrow> bool"

text \<open>
  The driver is modelled for any generator: \<open>nbr g current\<close> is the call
  \<^verbatim>\<open>random_neighbor(current, bmap, buildings)\<close> in generator state \<open>g\<close> and \<open>rnd g\<close> is
  \<^verbatim>\<open>random.random()\<close>; both return the next generator state. The program is the
  instance \<open>nbr = (\<lambda>g current. random_neighbor g current bmap)\<close>, \<open>rnd = random_float\<close>.
  The counters \<^verbatim>\<open>accepted\<close> and \<^verbatim>\<open>improved\<close> are only printed and are left out.
\<close>

record 'g sa_state =
  sa_current :: "antenna list"
  sa_current_cost :: int
  sa_best :: "antenna list"
  sa_best_cost :: int
  sa_gen :: 'g

text \<open>
  The test \<^verbatim>\<open>random.random() < math.exp(-delta / temp)\<close> for a draw \<open>u\<close>.
\<close>

definition metropolis :: "'t float_ops \<Rightarrow> 't \<Rightarrow> int \<Rightarrow> 't \<Rightarrow> error + bool" where
  "metropolis ops u delta temp =
     (case f_neg_div ops delta temp of
        Inl e \<Rightarrow> Inl e
      | Inr q \<Rightarrow>
         (case f_exp ops q of
            Inl e \<Rightarrow> Inl e
          | Inr p \<Rightarrow> Inr (f_lt ops u p)))"

text \<open>
  The body of the loop up to the two statements \<^verbatim>\<open>iteration += 1\<close> and
  \<^verbatim>\<open>temp *= cooling_rate\<close>, which end every path through it.
\<close>

definition sa_body ::
  "'t float_ops \<Rightarrow> ('g \<Rightarrow> antenna list \<Rightarrow> error + (antenna list option \<times> 'g))
     \<Rightarrow> ('g \<Rightarrow> 't \<times> 'g) \<Rightarrow> 't \<Rightarrow> 'g sa_state \<Rightarrow> error + 'g sa_state" where
  "sa_body ops nbr rnd temp st =
     (case nbr (sa_gen st) (sa_current st) of
        Inl e \<Rightarrow> Inl e
      | Inr (None, g1) \<Rightarrow> Inr (st\<lparr>sa_gen := g1\<rparr>)
      | Inr (Some neighbor, g1) \<Rightarrow>
         (let neighbor_cost = calculate_cost neighbor;
              delta = neighbor_cost - sa_current_cost st
          in if delta < 0 then
               (if neighbor_cost < sa_best_cost st
                then Inr \<lparr>sa_current = neighbor, sa_current_cost = neighbor_cost,
                          sa_best = neighbor, sa_best_cost = neighbor_cost, sa_gen = g1\<rparr>
                else Inr (st\<lparr>sa_current := neighbor, sa_current_cost := neighbor_cost,
                              sa_gen := g1\<rparr>))
             else
               (let (u, g2) = rnd g1
                in case metropolis ops u delta temp of
                     Inl e \<Rightarrow> Inl e
                   | Inr True \<Rightarrow>
                       Inr (st\<lparr>sa_current := neighbor, sa_current_cost := neighbor_cost,
                                sa_gen := g2\<rparr>)
                   | Inr False \<Rightarrow> Inr (st\<lparr>sa_gen := g2\<rparr>))))"

text \<open>
  The loop \<^verbatim>\<open>while temp > min_temp and iteration < max_iterations\<close>, returning the
  temperature, the iteration count and the state it ends with.
\<close>

function sa_loop ::
  "'t float_ops \<Rightarrow> ('g \<Rightarrow> antenna list \<Rightarrow> error + (antenna list option \<times> 'g))
     \<Rightarrow> ('g \<Rightarrow> 't \<times> 'g) \<Rightarrow> 't \<Rightarrow> 't \<Rightarrow> int \<Rightarrow> 't \<Rightarrow> int \<Rightarrow> 'g sa_state
     \<Rightarrow> error + ('t \<times> int \<times> 'g sa_state)" where
  "sa_loop ops nbr rnd cooling_rate min_temp max_iterations temp iteration st =
     (if f_gt ops temp min_temp \<and> iteration < max_iterations then
        case sa_body ops nbr rnd temp st of
          Inl e \<Rightarrow> Inl e
        | Inr st' \<Rightarrow>
           (case f_mul ops temp cooling_rate of
              Inl e \<Rightarrow> Inl e
            | Inr temp' \<Rightarrow>
                sa_loop ops nbr rnd cooling_rate min_temp max_iterations
                  temp' (iteration + 1) st')
      else Inr (temp, iteration, st))"
  by pat_completeness auto
termination
  by (relation "measure (\<lambda>(ops, nbr, rnd, cooling_rate, min_temp, max_iterations, temp,
        iteration, st). nat (max_iterations - iteration))") auto

declare sa_loop.simps [simp del]

definition sa_init :: "'g \<Rightarrow> antenna list \<Rightarrow> 'g sa_state" where
  "sa_init g antennas =
     \<lparr>sa_current = antennas, sa_current_cost = calculate_cost antennas,
      sa_best = antennas, sa_best_cost = calculate_cost antennas, sa_gen = g\<rparr>"

definition simulated_annealing ::
  "'t float_ops \<Rightarrow> ('g \<Rightarrow> antenna list \<Rightarrow> error + (antenna list option \<times> 'g))
     \<Rightarrow> ('g \<Rightarrow> 't \<times> 'g) \<Rightarrow> 'g \<Rightarrow> antenna list \<Rightarrow> 't \<Rightarrow> 't \<Rightarrow> 't \<Rightarrow> int
     \<Rightarrow> error + (antenna list \<times> int)" where
  "simulated_annealing ops nbr rnd g antennas initial_temp cooling_rate min_temp
     max_iterations =
     (case sa_loop ops nbr rnd cooling_rate min_temp max_iterations initial_temp 0
             (sa_init g antennas) of
        Inl e \<Rightarrow> Inl e
      | Inr (temp, iteration, st) \<Rightarrow> Inr (sa_best st, sa_best_cost st))"

text \<open>
  The run as the list of the loop's states, one at every evaluation of the loop
  condition: the temperature, the iteration count and the state. The last entry is
  the one the loop ends with.
\<close>

function sa_trace ::
  "'t float_ops \<Rightarrow> ('g \<Rightarrow> antenna list \<Rightarrow> error + (antenna list option \<times> 'g))
     \<Rightarrow> ('g \<Rightarrow> 't \<times> 'g) \<Rightarrow> 't \<Rightarrow> 't \<Rightarrow> int \<Rightarrow> 't \<Rightarrow> int \<Rightarrow> 'g sa_state
     \<Rightarrow> error + ('t \<times> int \<times> 'g sa_state) list" where
  "sa_trace ops nbr rnd cooling_rate min_temp max_iterations temp iteration st =
     (if f_gt ops temp min_temp \<and> iteration < max_iterations then
        case sa_body ops nbr rnd temp st of
          Inl e \<Rightarrow> Inl e
        | Inr st' \<Rightarrow>
           (case f_mul ops temp cooling_rate of
              Inl e \<Rightarrow> Inl e
            | Inr temp' \<Rightarrow>
               (case sa_trace ops nbr rnd cooling_rate min_temp max_iterations
                       temp' (iteration + 1) st' of
                  Inl e \<Rightarrow> Inl e
                | Inr tr \<Rightarrow> Inr ((temp, iteration, st) # tr)))
      else Inr [(temp, iteration, st)])"
  by pat_completeness auto
termination
  by (relation "measure (\<lambda>(ops, nbr, rnd, cooling_rate, min_temp, max_iterations, temp,
        iteration, st). nat (max_iterations - iteration))") auto

declare sa_trace.simps [simp del]

section \<open>Example data\<close>

text \<open>
  The three buildings of the specification's scenario, at \<open>(0, 0)\<close>, \<open>(30, 0)\<close> and
  \<open>(400, 0)\<close> with demand 100 each, and a building whose demand of 6000 is above
  every capacity.
\<close>

definition ex_b1 :: building where
  "ex_b1 = \<lparr>b_id = 1, b_x = 0, b_y = 0, populationPeakHours = 100,
             populationOffPeakHours = 50, populationNight = 20\<rparr>"

definition ex_b2 :: building where
  "ex_b2 = \<lparr>b_id = 2, b_x = 30, b_y = 0, populationPeakHours = 60,
             populationOffPeakHours = 100, populationNight = 20\<rparr>"

definition ex_b3 :: building where
  "ex_b3 = \<lparr>b_id = 3, b_x = 400, b_y = 0, populationPeakHours = 10,
             populationOffPeakHours = 50, populationNight = 100\<rparr>"


definition ex_buildings :: "building list" where
  "ex_buildings = [ex_b1, ex_b2, ex_b3]"

definition ex_solution :: "antenna list" where
  "ex_solution =
     [\<lparr>a_type = Density, a_x = 0, a_y = 0, a_buildings = [1, 2]\<rparr>,
      \<lparr>a_type = MaxRange, a_x = 400, a_y = 0, a_buildings = [3]\<rparr>]"

text \<open>
  A run of the annealing driver on the example: the neighbour generator over the
  example buildings, the neighbours it proposes first and second from the generator
  that draws only zeros, and the states after the first and the second iteration. The float operations of the
  run are those of the real numbers, which on the values of the run (the temperature
  100, the cooling rate one half) are the operations of double precision.
\<close>

definition ex_ops :: "real float_ops" where
  "ex_ops =
     \<lparr>f_mul = (\<lambda>a b. Inr (a * b)),
      f_gt = (\<lambda>a b. a > b),
      f_neg_div = (\<lambda>d t. if t = 0 then Inl ZeroDivisionError else Inr (- real_of_int d / t)),
      f_exp = (\<lambda>x. Inr (exp x)),
      f_lt = (\<lambda>a b. a < b)\<rparr>"

definition ex_nbr :: "rng \<Rightarrow> antenna list \<Rightarrow> error + (antenna list option \<times> rng)" where
  "ex_nbr g current = random_neighbor g current (mk_bmap ex_buildings)"

definition ex_moved :: "antenna list" where
  "ex_moved = [\<lparr>a_type = Nano, a_x = 0, a_y = 0, a_buildings = [2]\<rparr>,
               \<lparr>a_type = MaxRange, a_x = 400, a_y = 0, a_buildings = [3, 1]\<rparr>]"

definition ex_moved2 :: "antenna list" where
  "ex_moved2 = [\<lparr>a_type = MaxRange, a_x = 0, a_y = 0, a_buildings = [2, 3]\<rparr>,
                \<lparr>a_type = MaxRange, a_x = 400, a_y = 0, a_buildings = [1]\<rparr>]"

definition ex_st1 :: "rng sa_state" where
  "ex_st1 = \<lparr>sa_current = ex_moved, sa_current_cost = 45000, sa_best = ex_moved,
             sa_best_cost = 45000, sa_gen = \<lambda>_. 0\<rparr>"

definition ex_st2 :: "rng sa_state" where
  "ex_st2 = \<lparr>sa_current = ex_moved2, sa_current_cost = 80000, sa_best = ex_moved,
             sa_best_cost = 45000, sa_gen = \<lambda>_. 0\<rparr>"

text \<open>One Nano antenna on each example building, and the list after the first merge.\<close>

definition ex_nanos :: "antenna list" where
  "ex_nanos =
     [\<lparr>a_type = Nano, a_x = 0, a_y = 0, a_buildings = [1]\<rparr>,
      \<lparr>a_type = Nano, a_x = 30, a_y = 0, a_buildings = [2]\<rparr>,
      \<lparr>a_type = Nano, a_x = 400, a_y = 0, a_buildings = [3]\<rparr>]"

definition ex_merged :: "antenna list" where
  "ex_merged =
     [\<lparr>a_type = Nano, a_x = 0, a_y = 0, a_buildings = [1, 2]\<rparr>,
      \<lparr>a_type = Nano, a_x = 400, a_y = 0, a_buildings = [3]\<rparr>]"

text \<open>
  Score arithmetic for the examples: exact quotients, products and sums of rational
  numbers.
\<close>

definition ex_sops :: "rat score_ops" where
  "ex_sops =
     \<lparr>s_truediv = (\<lambda>a b. if b = 0 then Inl ZeroDivisionError else Inr (of_int a / of_int b)),
      s_mul = (\<lambda>q k. q * of_int k),
      s_add = (\<lambda>a b. a + b),
      s_minus_one = - 1\<rparr>"



section \<open>Auxiliary predicates of the proofs\<close>

definition fits_at :: "antenna \<Rightarrow> building list \<Rightarrow> int \<Rightarrow> atype \<Rightarrow> bool" where
  "fits_at ant blds tp t \<longleftrightarrow> tp \<le> capacity t \<and>
    list_all (\<lambda>b. dist_sq (a_x ant) (a_y ant) (b_x b) (b_y b) \<le> (range_of t) ^ 2) blds"

definition downgraded :: "(nat \<rightharpoonup> building) \<Rightarrow> antenna \<Rightarrow> antenna \<Rightarrow> bool" where
  "downgraded bmap a r \<longleftrightarrow>
     a_x r = a_x a \<and> a_y r = a_y a \<and> a_buildings r = a_buildings a \<and>
     (a_type r = a_type a \<or>
        type_fits bmap a (a_type r) \<and> cost_on (a_type r) < cost_on (a_type a)) \<and>
     cost_on (a_type r) \<le> cost_on (a_type a) \<and>
     (\<forall>t. type_fits bmap a t \<longrightarrow> cost_on (a_type r) \<le> cost_on t)"

definition sa_inv :: "'g sa_state \<Rightarrow> bool" where
  "sa_inv s \<longleftrightarrow>
     sa_current_cost s = calculate_cost (sa_current s) \<and>
     sa_best_cost s = calculate_cost (sa_best s) \<and>
     sa_best_cost s \<le> sa_current_cost s"

text \<open>
  The transition rule of the annealing driver in the words of the specification, as a
  relation between the state before an iteration and the state after it: no
  candidate leaves the state alone but for the generator; a candidate of lower cost
  becomes the current solution; any other candidate becomes the current solution
  exactly when the draw is below the exponential of \<open>- \<Delta> / T\<close>, and is dropped
  otherwise.
\<close>

definition sa_rule ::
  "'t float_ops \<Rightarrow> ('g \<Rightarrow> antenna list \<Rightarrow> error + (antenna list option \<times> 'g))
     \<Rightarrow> ('g \<Rightarrow> 't \<times> 'g) \<Rightarrow> 't \<Rightarrow> 'g sa_state \<Rightarrow> 'g sa_state \<Rightarrow> bool" where
  "sa_rule ops nbr rnd temp st st' =
     (case nbr (sa_gen st) (sa_current st) of
        Inl e \<Rightarrow> False
      | Inr (None, g1) \<Rightarrow> st' = st\<lparr>sa_gen := g1\<rparr>
      | Inr (Some neighbor, g1) \<Rightarrow>
          if calculate_cost neighbor - sa_current_cost st < 0
          then sa_current st' = neighbor \<and> sa_current_cost st' = calculate_cost neighbor
          else
            (\<exists>q p. f_neg_div ops (calculate_cost neighbor - sa_current_cost st) temp = Inr q \<and>
                   f_exp ops q = Inr p \<and>
                   (sa_current st', sa_current_cost st') =
                     (if f_lt ops (fst (rnd g1)) p
                      then (neighbor, calculate_cost neighbor)
                      else (sa_current st, sa_current_cost st))))"

text \<open>
  A committed merge is one pass of the scan that ends in a merge. A sound merge
  replaces the antenna at \<open>i\<close> by an antenna at the position of one of the two, with
  the concatenation of their building lists and a type that fits it and costs less
  than the two together, and removes the antenna at \<open>j\<close>.
\<close>

definition sound_merge :: "(nat \<rightharpoonup> building) \<Rightarrow> antenna list \<Rightarrow> antenna list \<Rightarrow> bool" where
  "sound_merge bmap antennas antennas' \<longleftrightarrow>
     (\<exists>i j merged.
        i < j \<and> j < length antennas \<and>
        antennas' = pop j (antennas[i := merged]) \<and>
        ((a_x merged, a_y merged) = (a_x (antennas ! i), a_y (antennas ! i)) \<or>
         (a_x merged, a_y merged) = (a_x (antennas ! j), a_y (antennas ! j))) \<and>
        a_buildings merged = a_buildings (antennas ! i) @ a_buildings (antennas ! j) \<and>
        type_fits bmap merged (a_type merged) \<and>
        cost_on (a_type merged)
          < cost_on (a_type (antennas ! i)) + cost_on (a_type (antennas ! j)))"

definition known_ids :: "(nat \<rightharpoonup> building) \<Rightarrow> antenna list \<Rightarrow> bool" where
  "known_ids bmap antennas \<longleftrightarrow> (\<forall>a\<in>set antennas. set (a_buildings a) \<subseteq> dom bmap)"

definition committed :: "(nat \<rightharpoonup> building) \<Rightarrow> antenna list \<Rightarrow> antenna list \<Rightarrow> bool" where
  "committed bmap antennas antennas' \<longleftrightarrow> scan_i bmap antennas 0 = Inr (Some antennas')"

text \<open>
  For the greedy constructor, in the words of the specification: whether a building
  id lies within a type's radius of a position; the demand of a building id; the
  uncovered buildings within the radius, each with its demand; the greedy
  accumulation of a sequence into a capacity, which takes every element in turn that
  fits into the room the elements taken before it have left; the selection for a
  type, which is the accumulation into the type's capacity of the considered buildings
  in ascending order of demand; the score of the selection; and the place of a type
  in the order in which the types are tried.
\<close>

definition in_radius :: "(nat \<rightharpoonup> building) \<Rightarrow> int \<Rightarrow> int \<Rightarrow> atype \<Rightarrow> nat \<Rightarrow> bool" where
  "in_radius bmap x y atype bid =
     (case bmap bid of
        None \<Rightarrow> False
      | Some b \<Rightarrow> dist_sq x y (b_x b) (b_y b) \<le> (range_of atype) ^ 2)"

definition demand :: "(nat \<rightharpoonup> building) \<Rightarrow> nat \<Rightarrow> int" where
  "demand bmap bid = (case bmap bid of None \<Rightarrow> 0 | Some b \<Rightarrow> get_max_pop b)"

definition considered ::
  "(nat \<rightharpoonup> building) \<Rightarrow> int \<Rightarrow> int \<Rightarrow> nat list \<Rightarrow> atype \<Rightarrow> (nat \<times> int) list" where
  "considered bmap x y uncovered_ids atype =
     map (\<lambda>bid. (bid, demand bmap bid)) (filter (in_radius bmap x y atype) uncovered_ids)"

fun accumulate :: "int \<Rightarrow> (nat \<times> int) list \<Rightarrow> (nat \<times> int) list" where
  "accumulate room [] = []"
| "accumulate room ((bid, d) # rest) =
     (if d \<le> room then (bid, d) # accumulate (room - d) rest else accumulate room rest)"

definition selection ::
  "(nat \<rightharpoonup> building) \<Rightarrow> int \<Rightarrow> int \<Rightarrow> nat list \<Rightarrow> atype \<Rightarrow> (nat \<times> int) list" where
  "selection bmap x y uncovered_ids atype =
     accumulate (capacity atype) (sort_key snd (considered bmap x y uncovered_ids atype))"

definition selection_score ::
  "'s score_ops \<Rightarrow> bool \<Rightarrow> (nat \<rightharpoonup> building) \<Rightarrow> int \<Rightarrow> int \<Rightarrow> nat list \<Rightarrow> atype
     \<Rightarrow> error + 's" where
  "selection_score ops prefer_capacity bmap x y uncovered_ids atype =
     score ops prefer_capacity (map fst (selection bmap x y uncovered_ids atype))
       (sum_list (map snd (selection bmap x y uncovered_ids atype))) (cost_on atype)"

fun fba_rank :: "atype \<Rightarrow> nat" where
  "fba_rank Density = 0"
| "fba_rank MaxRange = 1"
| "fba_rank Spot = 2"
| "fba_rank Nano = 3"




section \<open>Properties of the building map\<close>

lemma dom_foldl_upd:
  "dom (foldl (\<lambda>m b. m(b_id b \<mapsto> b)) m0 bs) = dom m0 \<union> b_id ` set bs"
  by (induction bs arbitrary: m0) auto

lemma dom_mk_bmap: "dom (mk_bmap bs) = b_id ` set bs"
  by (simp add: mk_bmap_def dom_foldl_upd)

lemma lookup_all_total:
  "set bids \<subseteq> dom bmap \<Longrightarrow> \<exists>blds. lookup_all bmap bids = Inr blds"
  by (induction bids) (auto split: option.splits sum.splits)

section \<open>Properties of the type downgrade\<close>

lemma type_step_cases:
  "type_step ant blds tp best t = best \<or>
   (type_step ant blds tp best t = (t, cost_on t) \<and> cost_on t < snd best \<and>
    tp \<le> capacity t \<and>
    list_all (\<lambda>b. dist_sq (a_x ant) (a_y ant) (b_x b) (b_y b) \<le> (range_of t) ^ 2) blds)"
  by (auto simp: type_step_def Let_def)

lemma type_step_min:
  "tp \<le> capacity t \<Longrightarrow>
   list_all (\<lambda>b. dist_sq (a_x ant) (a_y ant) (b_x b) (b_y b) \<le> (range_of t) ^ 2) blds \<Longrightarrow>
   snd (type_step ant blds tp best t) \<le> cost_on t"
  by (auto simp: type_step_def Let_def)

lemma type_step_mono: "snd (type_step ant blds tp best t) \<le> snd best"
  by (auto simp: type_step_def Let_def)

lemma foldl_type_step:
  assumes "snd best0 = cost_on (fst best0)"
  shows "let r = foldl (type_step ant blds tp) best0 ts in
     snd r = cost_on (fst r) \<and> snd r \<le> snd best0 \<and>
     (r = best0 \<or> (fits_at ant blds tp (fst r) \<and> snd r < snd best0)) \<and>
     (\<forall>t\<in>set ts. fits_at ant blds tp t \<longrightarrow> snd r \<le> cost_on t)"
  using assms
proof (induction ts arbitrary: best0 rule: rev_induct)
  case Nil
  then show ?case by simp
next
  case (snoc t ts)
  from snoc.IH[OF snoc.prems] show ?case
    using type_step_cases[of ant blds tp "foldl (type_step ant blds tp) best0 ts" t]
      type_step_min[of tp t ant blds "foldl (type_step ant blds tp) best0 ts"]
    by (auto simp: Let_def fits_at_def)
qed

lemma all_types: "set [Nano, Spot, MaxRange, Density] = UNIV"
  using atype.exhaust by auto

lemma optimize_one_downgraded:
  assumes "optimize_one bmap a = Inr r"
  shows "downgraded bmap a r"
proof -
  from assms obtain blds where blds: "lookup_all bmap (a_buildings a) = Inr blds"
    by (auto simp: optimize_one_def split: sum.splits)
  define tp where "tp = sum_list (map get_max_pop blds)"
  define ts where "ts = [Nano, Spot, MaxRange, Density]"
  define best where "best = foldl (type_step a blds tp) (a_type a, cost_on (a_type a)) ts"
  have r: "r = \<lparr>a_type = fst best, a_x = a_x a, a_y = a_y a, a_buildings = a_buildings a\<rparr>"
    using assms blds by (simp add: optimize_one_def Let_def best_def tp_def ts_def)
  have fits: "type_fits bmap a t \<longleftrightarrow> fits_at a blds tp t" for t
    by (simp add: type_fits_def fits_at_def blds tp_def)
  have univ: "set ts = UNIV" unfolding ts_def by (rule all_types)
  have "snd (a_type a, cost_on (a_type a)) = cost_on (fst (a_type a, cost_on (a_type a)))"
    by simp
  from foldl_type_step[OF this, of a blds tp ts]
  have "snd best = cost_on (fst best) \<and> snd best \<le> cost_on (a_type a) \<and>
     (best = (a_type a, cost_on (a_type a)) \<or>
        (fits_at a blds tp (fst best) \<and> snd best < cost_on (a_type a))) \<and>
     (\<forall>t\<in>set ts. fits_at a blds tp t \<longrightarrow> snd best \<le> cost_on t)"
    unfolding best_def[symmetric] Let_def snd_conv by blast
  then have "snd best = cost_on (fst best)" "snd best \<le> cost_on (a_type a)"
     "fst best = a_type a \<or> (fits_at a blds tp (fst best) \<and> snd best < cost_on (a_type a))"
     "\<forall>t. fits_at a blds tp t \<longrightarrow> snd best \<le> cost_on t"
    unfolding univ by auto
  then show ?thesis
    unfolding downgraded_def r fits by simp
qed

lemma optimize_one_total:
  "set (a_buildings a) \<subseteq> dom bmap \<Longrightarrow> \<exists>r. optimize_one bmap a = Inr r"
  using lookup_all_total[of "a_buildings a" bmap]
  by (auto simp: optimize_one_def Let_def)

lemma optimize_loop_spec:
  assumes "\<forall>a\<in>set sol. set (a_buildings a) \<subseteq> dom bmap"
  shows "\<exists>res. optimize_loop bmap sol = Inr res \<and> list_all2 (downgraded bmap) sol res"
  using assms
proof (induction sol)
  case Nil
  then show ?case by simp
next
  case (Cons a sol)
  then obtain r where r: "optimize_one bmap a = Inr r"
    using optimize_one_total[of a bmap] by auto
  from Cons obtain res where res: "optimize_loop bmap sol = Inr res"
    "list_all2 (downgraded bmap) sol res" by auto
  show ?case using r res optimize_one_downgraded[OF r] by simp
qed

lemma downgraded_cost:
  "list_all2 (downgraded bmap) sol res \<Longrightarrow> calculate_cost res \<le> calculate_cost sol"
  unfolding calculate_cost_def
  by (induction sol res rule: list_all2_induct) (auto simp: downgraded_def)

text \<open>
  Claim C4. For a solution whose building ids are all ids of the dataset,
  \<^verbatim>\<open>optimize_types\<close> returns a solution with the same antennas in the same order,
  each with its position and its building list unchanged. The new type of an antenna
  is its old type or a strictly cheaper type that fits the antenna's assignment
  (capacity at least the total demand, every building within the radius), and no type
  that fits is cheaper than the new one. The total cost does not increase.
\<close>

theorem optimize_types_downgrade:
  assumes "\<forall>a\<in>set solution. set (a_buildings a) \<subseteq> b_id ` set dataset"
  shows "\<exists>result. optimize_types solution dataset = Inr result \<and>
     length result = length solution \<and>
     (\<forall>i<length solution.
        a_x (result ! i) = a_x (solution ! i) \<and>
        a_y (result ! i) = a_y (solution ! i) \<and>
        a_buildings (result ! i) = a_buildings (solution ! i) \<and>
        (a_type (result ! i) = a_type (solution ! i) \<or>
           type_fits (mk_bmap dataset) (solution ! i) (a_type (result ! i)) \<and>
           cost_on (a_type (result ! i)) < cost_on (a_type (solution ! i))) \<and>
        (\<forall>t. type_fits (mk_bmap dataset) (solution ! i) t \<longrightarrow>
             cost_on (a_type (result ! i)) \<le> cost_on t)) \<and>
     calculate_cost result \<le> calculate_cost solution"
proof -
  from assms obtain res where res: "optimize_loop (mk_bmap dataset) solution = Inr res"
    "list_all2 (downgraded (mk_bmap dataset)) solution res"
    using optimize_loop_spec[of solution "mk_bmap dataset"] by (auto simp: dom_mk_bmap)
  have len: "length res = length solution"
    using res(2) by (simp add: list_all2_lengthD)
  have nth: "downgraded (mk_bmap dataset) (solution ! i) (res ! i)" if "i < length solution" for i
    using res(2) that by (simp add: list_all2_nthD)
  show ?thesis
    using res(1) len nth downgraded_cost[OF res(2)]
    by (auto simp: optimize_types_def downgraded_def)
qed


theorem optimize_types_downgrade_witness:
  "list_all (\<lambda>a. set (a_buildings a) \<subseteq> b_id ` set ex_buildings) ex_solution \<and>
   optimize_types ex_solution ex_buildings =
     Inr [\<lparr>a_type = Nano, a_x = 0, a_y = 0, a_buildings = [1, 2]\<rparr>,
          \<lparr>a_type = Nano, a_x = 400, a_y = 0, a_buildings = [3]\<rparr>] \<and>
   (\<exists>result. optimize_types ex_solution ex_buildings = Inr result \<and>
      length result = length ex_solution \<and>
      calculate_cost result \<le> calculate_cost ex_solution)"
proof -
  have h: "\<forall>a\<in>set ex_solution. set (a_buildings a) \<subseteq> b_id ` set ex_buildings"
    by (simp add: ex_solution_def ex_buildings_def ex_b1_def ex_b2_def ex_b3_def)
  have e: "optimize_types ex_solution ex_buildings =
     Inr [\<lparr>a_type = Nano, a_x = 0, a_y = 0, a_buildings = [1, 2]\<rparr>,
          \<lparr>a_type = Nano, a_x = 400, a_y = 0, a_buildings = [3]\<rparr>]"
    by (simp add: optimize_types_def optimize_one_def type_step_def mk_bmap_def
        ex_solution_def ex_buildings_def ex_b1_def ex_b2_def ex_b3_def get_max_pop_def
        dist_sq_def Let_def)
  from optimize_types_downgrade[OF h] obtain result where
    "optimize_types ex_solution ex_buildings = Inr result"
    "length result = length ex_solution"
    "calculate_cost result \<le> calculate_cost ex_solution"
    by blast
  with h e show ?thesis unfolding list_all_iff by blast
qed

section \<open>Evaluation of the example\<close>

lemma rng_next_const: "rng_next (\<lambda>_. c) = (\<lambda>_. c)"
  by (simp add: rng_next_def)

lemma ex_bmap: "mk_bmap ex_buildings = [1 \<mapsto> ex_b1, 2 \<mapsto> ex_b2, 3 \<mapsto> ex_b3]"
  by (simp add: mk_bmap_def ex_buildings_def ex_b1_def ex_b2_def ex_b3_def)

lemma ex_move:
  "move_building (\<lambda>_. 0) ex_solution (mk_bmap ex_buildings) =
     Inr (Some [\<lparr>a_type = Nano, a_x = 0, a_y = 0, a_buildings = [2]\<rparr>,
                \<lparr>a_type = MaxRange, a_x = 400, a_y = 0, a_buildings = [3, 1]\<rparr>], \<lambda>_. 0)"
  unfolding ex_bmap
  by (simp add: move_building_def choice_def randbelow_def rng_next_const shuffle_def
      get_cheapest_valid_type_def TYPE_ORDER_def dist_exceeds_def dist_sq_def get_max_pop_def
      ex_solution_def ex_b1_def ex_b2_def ex_b3_def Let_def upt_rec numeral_2_eq_2)

section \<open>Properties of the annealing driver\<close>

lemma sa_init_inv: "sa_inv (sa_init g antennas)"
  by (simp add: sa_inv_def sa_init_def)

lemma sa_body_inv:
  assumes "sa_body ops nbr rnd temp s = Inr s'" and "sa_inv s"
  shows "sa_inv s' \<and> sa_best_cost s' \<le> sa_best_cost s"
proof -
  from assms(1) obtain r g1 where n: "nbr (sa_gen s) (sa_current s) = Inr (r, g1)"
    by (auto simp: sa_body_def split: sum.splits)
  show ?thesis
  proof (cases r)
    case None
    with assms n show ?thesis by (auto simp: sa_body_def sa_inv_def)
  next
    case (Some neighbor)
    show ?thesis
    proof (cases "calculate_cost neighbor - sa_current_cost s < 0")
      case True
      with assms n Some show ?thesis
        by (auto simp: sa_body_def sa_inv_def Let_def split: if_splits)
    next
      case False
      with assms n Some show ?thesis
        by (auto simp: sa_body_def sa_inv_def Let_def
            split: if_splits prod.splits sum.splits bool.splits)
    qed
  qed
qed

text \<open>The two equations of the loop, and of its trace.\<close>

lemma sa_loop_stop:
  "\<not> (f_gt ops temp mt \<and> it < mi) \<Longrightarrow>
     sa_loop ops nbr rnd cr mt mi temp it s = Inr (temp, it, s)"
  by (subst sa_loop.simps) auto

lemma sa_loop_step:
  "f_gt ops temp mt \<Longrightarrow> it < mi \<Longrightarrow>
     sa_loop ops nbr rnd cr mt mi temp it s =
       (case sa_body ops nbr rnd temp s of
          Inl e \<Rightarrow> Inl e
        | Inr s' \<Rightarrow>
           (case f_mul ops temp cr of
              Inl e \<Rightarrow> Inl e
            | Inr temp' \<Rightarrow> sa_loop ops nbr rnd cr mt mi temp' (it + 1) s'))"
  by (subst sa_loop.simps) simp

lemma sa_trace_stop:
  "\<not> (f_gt ops temp mt \<and> it < mi) \<Longrightarrow>
     sa_trace ops nbr rnd cr mt mi temp it s = Inr [(temp, it, s)]"
  by (subst sa_trace.simps) auto

lemma sa_trace_step:
  "f_gt ops temp mt \<Longrightarrow> it < mi \<Longrightarrow>
     sa_trace ops nbr rnd cr mt mi temp it s =
       (case sa_body ops nbr rnd temp s of
          Inl e \<Rightarrow> Inl e
        | Inr s' \<Rightarrow>
           (case f_mul ops temp cr of
              Inl e \<Rightarrow> Inl e
            | Inr temp' \<Rightarrow>
               (case sa_trace ops nbr rnd cr mt mi temp' (it + 1) s' of
                  Inl e \<Rightarrow> Inl e
                | Inr tr \<Rightarrow> Inr ((temp, it, s) # tr))))"
  by (subst sa_trace.simps) simp

lemma sa_trace_cases:
  assumes "sa_trace ops nbr rnd cr mt mi temp it s = Inr tr"
  obtains (stop) "\<not> (f_gt ops temp mt \<and> it < mi)" "tr = [(temp, it, s)]"
  | (step) s' temp' tr' where "f_gt ops temp mt" "it < mi"
      "sa_body ops nbr rnd temp s = Inr s'" "f_mul ops temp cr = Inr temp'"
      "sa_trace ops nbr rnd cr mt mi temp' (it + 1) s' = Inr tr'"
      "tr = (temp, it, s) # tr'"
proof (cases "f_gt ops temp mt \<and> it < mi")
  case False
  with assms have "tr = [(temp, it, s)]" by (simp add: sa_trace_stop)
  with False show ?thesis by (rule stop)
next
  case True
  then have g: "f_gt ops temp mt" and l: "it < mi" by auto
  from assms obtain s' where b: "sa_body ops nbr rnd temp s = Inr s'"
    unfolding sa_trace_step[OF g l] by (cases "sa_body ops nbr rnd temp s") auto
  from assms b obtain temp' where m: "f_mul ops temp cr = Inr temp'"
    unfolding sa_trace_step[OF g l] by (cases "f_mul ops temp cr") auto
  from assms b m obtain tr' where
    t: "sa_trace ops nbr rnd cr mt mi temp' (it + 1) s' = Inr tr'"
    and e: "tr = (temp, it, s) # tr'"
    unfolding sa_trace_step[OF g l]
    by (cases "sa_trace ops nbr rnd cr mt mi temp' (it + 1) s'") auto
  from g l b m t e show ?thesis by (rule step)
qed

lemma sa_trace_nonempty:
  assumes "sa_trace ops nbr rnd cr mt mi temp it s = Inr tr"
  shows "tr \<noteq> [] \<and> hd tr = (temp, it, s)"
  using assms by (cases rule: sa_trace_cases) auto

lemma sa_loop_trace:
  "sa_loop ops nbr rnd cr mt mi temp it s =
     (case sa_trace ops nbr rnd cr mt mi temp it s of
        Inl e \<Rightarrow> Inl e
      | Inr tr \<Rightarrow> Inr (last tr))"
proof (induction ops nbr rnd cr mt mi temp it s rule: sa_trace.induct)
  case (1 ops nbr rnd cr mt mi temp it s)
  show ?case
  proof (cases "f_gt ops temp mt \<and> it < mi")
    case False
    then show ?thesis by (simp add: sa_loop_stop sa_trace_stop)
  next
    case True
    then have g: "f_gt ops temp mt" and l: "it < mi" by auto
    show ?thesis
    proof (cases "sa_body ops nbr rnd temp s")
      case (Inl e)
      then show ?thesis by (simp add: sa_loop_step[OF g l] sa_trace_step[OF g l])
    next
      case b: (Inr s')
      show ?thesis
      proof (cases "f_mul ops temp cr")
        case (Inl e)
        with b show ?thesis by (simp add: sa_loop_step[OF g l] sa_trace_step[OF g l])
      next
        case m: (Inr temp')
        note IH = "1.IH"[OF True b m]
        show ?thesis
        proof (cases "sa_trace ops nbr rnd cr mt mi temp' (it + 1) s'")
          case (Inl e)
          with b m IH show ?thesis
            by (simp add: sa_loop_step[OF g l] sa_trace_step[OF g l])
        next
          case r: (Inr tr)
          then have "tr \<noteq> []" by (simp add: sa_trace_nonempty)
          with b m IH r show ?thesis
            by (simp add: sa_loop_step[OF g l] sa_trace_step[OF g l])
        qed
      qed
    qed
  qed
qed

lemma sa_trace_inv:
  assumes "sa_trace ops nbr rnd cr mt mi temp it s = Inr tr" and "sa_inv s"
  shows "(\<forall>e\<in>set tr. sa_inv (snd (snd e)) \<and> sa_best_cost (snd (snd e)) \<le> sa_best_cost s) \<and>
         sorted_wrt (\<lambda>a b. sa_best_cost (snd (snd b)) \<le> sa_best_cost (snd (snd a))) tr"
  using assms
proof (induction ops nbr rnd cr mt mi temp it s arbitrary: tr rule: sa_trace.induct)
  case (1 ops nbr rnd cr mt mi temp it s)
  from "1.prems"(1) show ?case
  proof (cases rule: sa_trace_cases)
    case stop
    with "1.prems"(2) show ?thesis by simp
  next
    case (step s' temp' tr')
    from step(1,2) have c: "f_gt ops temp mt \<and> it < mi" by simp
    from sa_body_inv[OF step(3) "1.prems"(2)]
    have i': "sa_inv s'" and le: "sa_best_cost s' \<le> sa_best_cost s" by auto
    from "1.IH"[OF c step(3) step(4) step(5) i']
    have a: "\<forall>e\<in>set tr'. sa_inv (snd (snd e)) \<and> sa_best_cost (snd (snd e)) \<le> sa_best_cost s'"
      and b: "sorted_wrt (\<lambda>a b. sa_best_cost (snd (snd b)) \<le> sa_best_cost (snd (snd a))) tr'"
      by auto
    from a le have d: "\<forall>e\<in>set tr'. sa_best_cost (snd (snd e)) \<le> sa_best_cost s"
      by fastforce
    show ?thesis using a b d "1.prems"(2) unfolding step(6) by simp
  qed
qed

lemma sa_body_rule:
  assumes "sa_body ops nbr rnd temp st = Inr st'"
  shows "sa_rule ops nbr rnd temp st st'"
proof -
  from assms obtain r g1 where n: "nbr (sa_gen st) (sa_current st) = Inr (r, g1)"
    by (auto simp: sa_body_def split: sum.splits)
  show ?thesis
  proof (cases r)
    case None
    with assms n show ?thesis by (simp add: sa_body_def sa_rule_def)
  next
    case (Some neighbor)
    define delta where "delta = calculate_cost neighbor - sa_current_cost st"
    show ?thesis
    proof (cases "delta < 0")
      case True
      with assms n Some show ?thesis
        by (auto simp: sa_body_def sa_rule_def Let_def delta_def split: if_splits)
    next
      case False
      obtain u g2 where r: "rnd g1 = (u, g2)" by (cases "rnd g1")
      from assms n Some False r obtain acc where m: "metropolis ops u delta temp = Inr acc"
        by (auto simp: sa_body_def Let_def delta_def split: sum.splits)
      then obtain q p where q: "f_neg_div ops delta temp = Inr q" and p: "f_exp ops q = Inr p"
        and acc: "acc = f_lt ops u p"
        by (auto simp: metropolis_def split: sum.splits)
      have cur: "(sa_current st', sa_current_cost st') =
          (if f_lt ops u p then (neighbor, calculate_cost neighbor)
           else (sa_current st, sa_current_cost st))"
        using assms n Some False r m acc
        by (cases acc) (auto simp: sa_body_def Let_def delta_def)
      from False n Some q p cur r show ?thesis
        by (auto simp: sa_rule_def delta_def)
    qed
  qed
qed

lemma sa_trace_schedule:
  assumes "sa_trace ops nbr rnd cr mt mi temp it st = Inr tr"
  shows "(\<forall>k. Suc k < length tr \<longrightarrow>
              f_gt ops (fst (tr ! k)) mt \<and> fst (snd (tr ! k)) < mi \<and>
              sa_body ops nbr rnd (fst (tr ! k)) (snd (snd (tr ! k)))
                = Inr (snd (snd (tr ! Suc k))) \<and>
              f_mul ops (fst (tr ! k)) cr = Inr (fst (tr ! Suc k)) \<and>
              fst (snd (tr ! Suc k)) = fst (snd (tr ! k)) + 1) \<and>
         \<not> (f_gt ops (fst (last tr)) mt \<and> fst (snd (last tr)) < mi)"
  using assms
proof (induction ops nbr rnd cr mt mi temp it st arbitrary: tr rule: sa_trace.induct)
  case (1 ops nbr rnd cr mt mi temp it st)
  from "1.prems" show ?case
  proof (cases rule: sa_trace_cases)
    case stop
    then show ?thesis by simp
  next
    case (step st' temp' tr')
    from step(1,2) have c: "f_gt ops temp mt \<and> it < mi" by simp
    from "1.IH"[OF c step(3) step(4) step(5)]
    have B: "\<And>k. Suc k < length tr' \<Longrightarrow>
              f_gt ops (fst (tr' ! k)) mt \<and> fst (snd (tr' ! k)) < mi \<and>
              sa_body ops nbr rnd (fst (tr' ! k)) (snd (snd (tr' ! k)))
                = Inr (snd (snd (tr' ! Suc k))) \<and>
              f_mul ops (fst (tr' ! k)) cr = Inr (fst (tr' ! Suc k)) \<and>
              fst (snd (tr' ! Suc k)) = fst (snd (tr' ! k)) + 1"
      and C: "\<not> (f_gt ops (fst (last tr')) mt \<and> fst (snd (last tr')) < mi)"
      by auto
    from sa_trace_nonempty[OF step(5)] have ne: "tr' \<noteq> []"
      and z: "tr' ! 0 = (temp', it + 1, st')" by (auto simp: hd_conv_nth)
    have 2: "\<forall>k. Suc k < length tr \<longrightarrow>
              f_gt ops (fst (tr ! k)) mt \<and> fst (snd (tr ! k)) < mi \<and>
              sa_body ops nbr rnd (fst (tr ! k)) (snd (snd (tr ! k)))
                = Inr (snd (snd (tr ! Suc k))) \<and>
              f_mul ops (fst (tr ! k)) cr = Inr (fst (tr ! Suc k)) \<and>
              fst (snd (tr ! Suc k)) = fst (snd (tr ! k)) + 1"
    proof (intro allI impI)
      fix k assume k: "Suc k < length tr"
      show "f_gt ops (fst (tr ! k)) mt \<and> fst (snd (tr ! k)) < mi \<and>
              sa_body ops nbr rnd (fst (tr ! k)) (snd (snd (tr ! k)))
                = Inr (snd (snd (tr ! Suc k))) \<and>
              f_mul ops (fst (tr ! k)) cr = Inr (fst (tr ! Suc k)) \<and>
              fst (snd (tr ! Suc k)) = fst (snd (tr ! k)) + 1"
      proof (cases k)
        case 0
        with step z show ?thesis by simp
      next
        case (Suc j)
        with k have "Suc j < length tr'" by (simp add: step(6))
        from B[OF this] Suc show ?thesis by (simp add: step(6))
      qed
    qed
    have 3: "\<not> (f_gt ops (fst (last tr)) mt \<and> fst (snd (last tr)) < mi)"
      using C ne by (simp add: step(6))
    from 2 3 show ?thesis by blast
  qed
qed

subsection \<open>The example run\<close>

text \<open>
  Two iterations from the example solution with the generator that draws only zeros.
  Both propose a move of a building. The first lowers the cost from 70000 to 45000
  and is accepted as an improvement; the second raises it to 80000 and is accepted by
  the draw, \<open>0 < exp (- 35000 / 50)\<close>. The best snapshot stays the solution of cost
  45000.
\<close>

lemma ex_neighbor:
  "ex_nbr (\<lambda>_. 0) ex_solution = Inr (Some ex_moved, \<lambda>_. 0)"
  by (simp add: ex_nbr_def random_neighbor_def random_float_def rng_next_const moves_def
      ex_move truthy_def ex_moved_def)

lemma ex_move2:
  "move_building (\<lambda>_. 0) ex_moved (mk_bmap ex_buildings) = Inr (Some ex_moved2, \<lambda>_. 0)"
  unfolding ex_bmap
  by (simp add: move_building_def choice_def randbelow_def rng_next_const shuffle_def
      get_cheapest_valid_type_def TYPE_ORDER_def dist_exceeds_def dist_sq_def get_max_pop_def
      ex_moved_def ex_moved2_def ex_b1_def ex_b2_def ex_b3_def Let_def upt_rec numeral_2_eq_2)

lemma ex_neighbor2:
  "ex_nbr (\<lambda>_. 0) ex_moved = Inr (Some ex_moved2, \<lambda>_. 0)"
  by (simp add: ex_nbr_def random_neighbor_def random_float_def rng_next_const moves_def
      ex_move2 truthy_def ex_moved2_def)

lemma ex_costs:
  "calculate_cost ex_solution = 70000" "calculate_cost ex_moved = 45000"
  "calculate_cost ex_moved2 = 80000"
  by (simp_all add: calculate_cost_def ex_solution_def ex_moved_def ex_moved2_def)

lemma ex_body:
  "sa_body ex_ops ex_nbr random_float 100 (sa_init (\<lambda>_. 0) ex_solution) = Inr ex_st1"
  by (simp add: sa_body_def sa_init_def ex_neighbor ex_costs ex_st1_def)

lemma ex_body2: "sa_body ex_ops ex_nbr random_float 50 ex_st1 = Inr ex_st2"
  by (simp add: sa_body_def ex_st1_def ex_st2_def ex_neighbor2 ex_costs metropolis_def
      ex_ops_def random_float_def rng_next_const)

lemma ex_trace:
  "sa_trace ex_ops ex_nbr random_float (1 / 2) 1 2 100 0 (sa_init (\<lambda>_. 0) ex_solution) =
     Inr [(100, 0, sa_init (\<lambda>_. 0) ex_solution), (50, 1, ex_st1), (25, 2, ex_st2)]"
proof -
  have 3: "sa_trace ex_ops ex_nbr random_float (1 / 2) 1 2 25 2 ex_st2 = Inr [(25, 2, ex_st2)]"
    by (rule sa_trace_stop) simp
  have 2: "sa_trace ex_ops ex_nbr random_float (1 / 2) 1 2 50 1 ex_st1 =
      Inr [(50, 1, ex_st1), (25, 2, ex_st2)]"
    using 3 by (subst sa_trace_step) (simp_all add: ex_ops_def ex_body2[unfolded ex_ops_def])
  show ?thesis
    using 2 by (subst sa_trace_step) (simp_all add: ex_ops_def ex_body[unfolded ex_ops_def])
qed

lemma ex_run:
  "simulated_annealing ex_ops ex_nbr random_float (\<lambda>_. 0) ex_solution 100 (1 / 2) 1 2 =
     Inr (ex_moved, 45000)"
  by (simp add: simulated_annealing_def sa_loop_trace ex_trace ex_st2_def)

text \<open>
  Claim C6. Whenever \<^verbatim>\<open>simulated_annealing\<close> returns, the run has a trace of loop
  states; the returned solution is the best snapshot of the last state and the
  returned cost is its cost. That cost is at most the cost of the initial solution,
  at most the cost of the current solution of every state of the run (each of which
  is the cost of that current solution) and at most the best-known cost of every
  state; the best-known cost never increases from one state to a later one. This
  holds whatever the float operations, the neighbour generator and the draws are.
\<close>

theorem sa_best_snapshot:
  assumes "simulated_annealing ops nbr rnd g antennas initial_temp cooling_rate min_temp
             max_iterations = Inr (best, best_cost)"
  shows "\<exists>tr. sa_trace ops nbr rnd cooling_rate min_temp max_iterations initial_temp 0
                 (sa_init g antennas) = Inr tr \<and>
           best = sa_best (snd (snd (last tr))) \<and>
           best_cost = calculate_cost best \<and>
           best_cost \<le> calculate_cost antennas \<and>
           (\<forall>e\<in>set tr. sa_current_cost (snd (snd e)) = calculate_cost (sa_current (snd (snd e))) \<and>
                       best_cost \<le> sa_current_cost (snd (snd e)) \<and>
                       best_cost \<le> sa_best_cost (snd (snd e))) \<and>
           sorted_wrt (\<lambda>a b. sa_best_cost (snd (snd b)) \<le> sa_best_cost (snd (snd a))) tr"
proof -
  let ?tr = "sa_trace ops nbr rnd cooling_rate min_temp max_iterations initial_temp 0
               (sa_init g antennas)"
  from assms obtain tr where tr: "?tr = Inr tr"
    and b: "best = sa_best (snd (snd (last tr)))"
      "best_cost = sa_best_cost (snd (snd (last tr)))"
    by (auto simp: simulated_annealing_def sa_loop_trace split: sum.splits prod.splits)
  from sa_trace_inv[OF tr sa_init_inv]
  have inv: "\<forall>e\<in>set tr. sa_inv (snd (snd e)) \<and>
               sa_best_cost (snd (snd e)) \<le> sa_best_cost (sa_init g antennas)"
    and srt: "sorted_wrt (\<lambda>a b. sa_best_cost (snd (snd b)) \<le> sa_best_cost (snd (snd a))) tr"
    by auto
  from sa_trace_nonempty[OF tr] have ne: "tr \<noteq> []" by simp
  then have lst: "last tr \<in> set tr" by simp
  have le_last: "best_cost \<le> sa_best_cost (snd (snd e))" if "e \<in> set tr" for e
  proof (cases "e = last tr")
    case True
    then show ?thesis by (simp add: b)
  next
    case False
    from that obtain i where i: "i < length tr" "tr ! i = e" by (auto simp: in_set_conv_nth)
    have "i \<noteq> length tr - 1"
      using False i ne by (auto simp: last_conv_nth)
    with i have "i < length tr - 1" by arith
    with srt ne
    have "sa_best_cost (snd (snd (tr ! (length tr - 1)))) \<le> sa_best_cost (snd (snd (tr ! i)))"
      by (simp add: sorted_wrt_iff_nth_less)
    with i ne show ?thesis by (simp add: b last_conv_nth)
  qed
  have 1: "best_cost = calculate_cost best"
    using inv lst b by (auto simp: sa_inv_def)
  have 2: "best_cost \<le> calculate_cost antennas"
    using inv lst b by (auto simp: sa_init_def)
  have 3: "\<forall>e\<in>set tr.
      sa_current_cost (snd (snd e)) = calculate_cost (sa_current (snd (snd e))) \<and>
      best_cost \<le> sa_current_cost (snd (snd e)) \<and>
      best_cost \<le> sa_best_cost (snd (snd e))"
  proof
    fix e assume e: "e \<in> set tr"
    with inv have "sa_inv (snd (snd e))" by blast
    with le_last[OF e]
    show "sa_current_cost (snd (snd e)) = calculate_cost (sa_current (snd (snd e))) \<and>
          best_cost \<le> sa_current_cost (snd (snd e)) \<and>
          best_cost \<le> sa_best_cost (snd (snd e))"
      by (auto simp: sa_inv_def)
  qed
  from tr b(1) 1 2 3 srt show ?thesis by blast
qed

theorem sa_best_snapshot_witness:
  "simulated_annealing ex_ops ex_nbr random_float (\<lambda>_. 0) ex_solution 100 (1 / 2) 1 2 =
     Inr (ex_moved, 45000) \<and>
   (45000::int) = calculate_cost ex_moved \<and>
   (45000::int) \<le> calculate_cost ex_solution \<and>
   sa_current_cost ex_st2 = 80000 \<and>
   list_all (\<lambda>e. 45000 \<le> sa_current_cost (snd (snd e)))
     [(100, 0, sa_init (\<lambda>_. 0) ex_solution), (50 :: real, 1 :: int, ex_st1), (25, 2, ex_st2)]"
proof -
  from sa_best_snapshot[OF ex_run] obtain tr where
    tr: "sa_trace ex_ops ex_nbr random_float (1 / 2) 1 2 100 0
           (sa_init (\<lambda>_. 0) ex_solution) = Inr tr"
    and c: "(45000::int) = calculate_cost ex_moved"
      "(45000::int) \<le> calculate_cost ex_solution"
    and a: "\<forall>e\<in>set tr.
        sa_current_cost (snd (snd e)) = calculate_cost (sa_current (snd (snd e))) \<and>
        45000 \<le> sa_current_cost (snd (snd e)) \<and>
        45000 \<le> sa_best_cost (snd (snd e))"
    by blast
  from tr have
    "tr = [(100, 0, sa_init (\<lambda>_. 0) ex_solution), (50, 1, ex_st1), (25, 2, ex_st2)]"
    by (simp add: ex_trace)
  with a have "list_all (\<lambda>e. 45000 \<le> sa_current_cost (snd (snd e)))
     [(100, 0, sa_init (\<lambda>_. 0) ex_solution), (50 :: real, 1 :: int, ex_st1), (25, 2, ex_st2)]"
    by (simp add: list_all_iff)
  moreover have "sa_current_cost ex_st2 = 80000" by (simp add: ex_st2_def)
  ultimately show ?thesis using ex_run c by blast
qed

text \<open>
  Claim C7. For every completed run of the loop, with the trace \<open>tr\<close> of its states:
  the loop returns the last state, and the trace starts with the initial temperature,
  the count 0 and the initial solution. Every state but the last passes the loop
  condition \<^verbatim>\<open>temp > min_temp and iteration < max_iterations\<close> and is taken to the
  next state by the transition rule \<open>sa_rule\<close> at its temperature: no candidate is a
  no-op on the current solution, a candidate with \<open>\<Delta> < 0\<close> is accepted, and a
  candidate with \<open>\<Delta> \<ge> 0\<close> is accepted exactly when the draw is below
  \<^verbatim>\<open>math.exp(-delta / temp)\<close>. In each of these cases the next temperature is the
  product \<^verbatim>\<open>temp * cooling_rate\<close> and the next count is one more. The last state
  fails the loop condition, so the loop ends at the first state whose temperature is
  not above \<^verbatim>\<open>min_temp\<close> or whose count has reached \<^verbatim>\<open>max_iterations\<close>. The float
  operations are those of the record \<open>ops\<close>, whatever they are.
\<close>

theorem sa_transition_rule:
  assumes "sa_trace ops nbr rnd cooling_rate min_temp max_iterations initial_temp 0
             (sa_init g antennas) = Inr tr"
  shows "sa_loop ops nbr rnd cooling_rate min_temp max_iterations initial_temp 0
           (sa_init g antennas) = Inr (last tr) \<and>
         tr \<noteq> [] \<and> tr ! 0 = (initial_temp, 0, sa_init g antennas) \<and>
         (\<forall>k. Suc k < length tr \<longrightarrow>
              f_gt ops (fst (tr ! k)) min_temp \<and> fst (snd (tr ! k)) < max_iterations \<and>
              sa_rule ops nbr rnd (fst (tr ! k)) (snd (snd (tr ! k))) (snd (snd (tr ! Suc k))) \<and>
              f_mul ops (fst (tr ! k)) cooling_rate = Inr (fst (tr ! Suc k)) \<and>
              fst (snd (tr ! Suc k)) = fst (snd (tr ! k)) + 1) \<and>
         \<not> (f_gt ops (fst (last tr)) min_temp \<and> fst (snd (last tr)) < max_iterations)"
proof -
  have 1: "sa_loop ops nbr rnd cooling_rate min_temp max_iterations initial_temp 0
        (sa_init g antennas) = Inr (last tr)"
    by (simp add: sa_loop_trace assms)
  from sa_trace_nonempty[OF assms]
  have 2: "tr \<noteq> []" and 3: "tr ! 0 = (initial_temp, 0, sa_init g antennas)"
    by (auto simp: hd_conv_nth)
  note s = sa_trace_schedule[OF assms]
  have 4: "\<forall>k. Suc k < length tr \<longrightarrow>
      f_gt ops (fst (tr ! k)) min_temp \<and> fst (snd (tr ! k)) < max_iterations \<and>
      sa_rule ops nbr rnd (fst (tr ! k)) (snd (snd (tr ! k))) (snd (snd (tr ! Suc k))) \<and>
      f_mul ops (fst (tr ! k)) cooling_rate = Inr (fst (tr ! Suc k)) \<and>
      fst (snd (tr ! Suc k)) = fst (snd (tr ! k)) + 1"
  proof (intro allI impI)
    fix k assume k: "Suc k < length tr"
    with s have a: "f_gt ops (fst (tr ! k)) min_temp" "fst (snd (tr ! k)) < max_iterations"
      "sa_body ops nbr rnd (fst (tr ! k)) (snd (snd (tr ! k))) = Inr (snd (snd (tr ! Suc k)))"
      "f_mul ops (fst (tr ! k)) cooling_rate = Inr (fst (tr ! Suc k))"
      "fst (snd (tr ! Suc k)) = fst (snd (tr ! k)) + 1"
      by blast+
    from a(3) have "sa_rule ops nbr rnd (fst (tr ! k)) (snd (snd (tr ! k)))
        (snd (snd (tr ! Suc k)))"
      by (rule sa_body_rule)
    with a show "f_gt ops (fst (tr ! k)) min_temp \<and> fst (snd (tr ! k)) < max_iterations \<and>
      sa_rule ops nbr rnd (fst (tr ! k)) (snd (snd (tr ! k))) (snd (snd (tr ! Suc k))) \<and>
      f_mul ops (fst (tr ! k)) cooling_rate = Inr (fst (tr ! Suc k)) \<and>
      fst (snd (tr ! Suc k)) = fst (snd (tr ! k)) + 1"
      by blast
  qed
  from s have 5: "\<not> (f_gt ops (fst (last tr)) min_temp \<and> fst (snd (last tr)) < max_iterations)"
    by blast
  from 1 2 3 4 5 show ?thesis by blast
qed

theorem sa_transition_rule_witness:
  "sa_trace ex_ops ex_nbr random_float (1 / 2) 1 2 100 0 (sa_init (\<lambda>_. 0) ex_solution) =
     Inr [(100, 0, sa_init (\<lambda>_. 0) ex_solution), (50, 1, ex_st1), (25, 2, ex_st2)] \<and>
   sa_loop ex_ops ex_nbr random_float (1 / 2) 1 2 100 0 (sa_init (\<lambda>_. 0) ex_solution) =
     Inr (25, 2, ex_st2) \<and>
   sa_rule ex_ops ex_nbr random_float 100 (sa_init (\<lambda>_. 0) ex_solution) ex_st1 \<and>
   sa_rule ex_ops ex_nbr random_float 50 ex_st1 ex_st2 \<and>
   f_mul ex_ops 100 (1 / 2) = Inr 50 \<and> f_mul ex_ops 50 (1 / 2) = Inr 25 \<and>
   \<not> (f_gt ex_ops 25 1 \<and> (2::int) < 2)"
proof -
  let ?tr = "[(100::real, 0::int, sa_init (\<lambda>_. 0) ex_solution), (50, 1, ex_st1),
              (25, 2, ex_st2)]"
  note t = sa_transition_rule[OF ex_trace]
  from t have 1: "sa_loop ex_ops ex_nbr random_float (1 / 2) 1 2 100 0
     (sa_init (\<lambda>_. 0) ex_solution) = Inr (last ?tr)" by blast
  from t have s: "\<forall>k. Suc k < length ?tr \<longrightarrow>
     sa_rule ex_ops ex_nbr random_float (fst (?tr ! k)) (snd (snd (?tr ! k)))
       (snd (snd (?tr ! Suc k))) \<and>
     f_mul ex_ops (fst (?tr ! k)) (1 / 2) = Inr (fst (?tr ! Suc k))"
    by blast
  from s[rule_format, of 0]
  have 2: "sa_rule ex_ops ex_nbr random_float 100 (sa_init (\<lambda>_. 0) ex_solution) ex_st1"
    and 3: "f_mul ex_ops 100 (1 / 2) = Inr 50"
    by simp_all
  from s[rule_format, of 1]
  have 4: "sa_rule ex_ops ex_nbr random_float 50 ex_st1 ex_st2"
    and 5: "f_mul ex_ops 50 (1 / 2) = Inr 25"
    by simp_all
  from t have 6: "\<not> (f_gt ex_ops (fst (last ?tr)) 1 \<and> fst (snd (last ?tr)) < 2)" by blast
  from 1 2 3 4 5 6 ex_trace show ?thesis by simp
qed

section \<open>Properties of the pairwise merge\<close>

lemma lookup_all_append:
  "lookup_all bmap (xs @ ys) =
     (case lookup_all bmap xs of
        Inl e \<Rightarrow> Inl e
      | Inr bs \<Rightarrow> (case lookup_all bmap ys of Inl e \<Rightarrow> Inl e | Inr cs \<Rightarrow> Inr (bs @ cs)))"
  by (induction xs) (auto split: option.splits sum.splits)

lemma merge_candidates_pos:
  "(pos, t) \<in> set (merge_candidates a1 a2) \<Longrightarrow>
     pos = (a_x a1, a_y a1) \<or> pos = (a_x a2, a_y a2)"
  by (auto simp: merge_candidates_def)

lemma try_pair_sound:
  assumes "try_pair bmap a1 a2 = Inr (Some m)"
  shows "((a_x m, a_y m) = (a_x a1, a_y a1) \<or> (a_x m, a_y m) = (a_x a2, a_y a2)) \<and>
         a_buildings m = a_buildings a1 @ a_buildings a2 \<and>
         type_fits bmap m (a_type m) \<and>
         cost_on (a_type m) < cost_on (a_type a1) + cost_on (a_type a2)"
proof -
  from assms obtain blds where blds: "lookup_all bmap (a_buildings a1 @ a_buildings a2) = Inr blds"
    by (auto simp: try_pair_def Let_def split: sum.splits)
  define P where "P = (\<lambda>(pos, atype).
        \<not> capacity atype < sum_list (map get_max_pop blds) \<and>
        list_all (\<lambda>b. dist_sq (fst pos) (snd pos) (b_x b) (b_y b) \<le> (range_of atype) ^ 2) blds \<and>
        cost_on atype < cost_on (a_type a1) + cost_on (a_type a2))"
  from assms blds obtain pos t where f: "find P (merge_candidates a1 a2) = Some (pos, t)"
    and m: "m = \<lparr>a_type = t, a_x = fst pos, a_y = snd pos,
                 a_buildings = a_buildings a1 @ a_buildings a2\<rparr>"
    by (auto simp: try_pair_def Let_def P_def split: option.splits)
  from f have "P (pos, t)" and mem: "(pos, t) \<in> set (merge_candidates a1 a2)"
    by (auto simp: find_Some_iff in_set_conv_nth)
  then have p: "\<not> capacity t < sum_list (map get_max_pop blds)"
    "list_all (\<lambda>b. dist_sq (fst pos) (snd pos) (b_x b) (b_y b) \<le> (range_of t) ^ 2) blds"
    "cost_on t < cost_on (a_type a1) + cost_on (a_type a2)"
    by (auto simp: P_def)
  from merge_candidates_pos[OF mem] have "pos = (a_x a1, a_y a1) \<or> pos = (a_x a2, a_y a2)" .
  then have 1: "(a_x m, a_y m) = (a_x a1, a_y a1) \<or> (a_x m, a_y m) = (a_x a2, a_y a2)"
    by (auto simp: m)
  have 3: "type_fits bmap m (a_type m)"
    using p blds by (simp add: type_fits_def m)
  from 1 3 p(3) show ?thesis by (simp add: m)
qed

lemma try_pair_total:
  assumes "set (a_buildings a1) \<subseteq> dom bmap" "set (a_buildings a2) \<subseteq> dom bmap"
  shows "\<exists>r. try_pair bmap a1 a2 = Inr r"
proof -
  have "set (a_buildings a1 @ a_buildings a2) \<subseteq> dom bmap" using assms by simp
  from lookup_all_total[OF this] obtain blds where
    "lookup_all bmap (a_buildings a1 @ a_buildings a2) = Inr blds" by blast
  then show ?thesis
    by (auto simp: try_pair_def Let_def split: option.splits)
qed

lemma scan_j_sound:
  assumes "scan_j bmap antennas i j = Inr (Some antennas')" and "i < j"
  shows "\<exists>j' m. j \<le> j' \<and> j' < length antennas \<and>
           try_pair bmap (antennas ! i) (antennas ! j') = Inr (Some m) \<and>
           antennas' = pop j' (antennas[i := m])"
  using assms
proof (induction bmap antennas i j rule: scan_j.induct)
  case (1 bmap antennas i j)
  from "1.prems"(1) have lt: "j < length antennas"
    by (subst (asm) scan_j.simps) (auto split: if_splits)
  from "1.prems"(1) lt obtain r where r: "try_pair bmap (antennas ! i) (antennas ! j) = Inr r"
    by (subst (asm) scan_j.simps) (auto split: sum.splits)
  show ?case
  proof (cases r)
    case None
    with "1.prems"(1) lt r have "scan_j bmap antennas i (j + 1) = Inr (Some antennas')"
      by (subst (asm) scan_j.simps) simp
    from "1.IH"[OF lt r None this] "1.prems"(2)
    obtain j' m where "j + 1 \<le> j'" "j' < length antennas"
      "try_pair bmap (antennas ! i) (antennas ! j') = Inr (Some m)"
      "antennas' = pop j' (antennas[i := m])" by auto
    then show ?thesis by (intro exI[of _ j'] exI[of _ m]) auto
  next
    case (Some m)
    with "1.prems"(1) lt r have "antennas' = pop j (antennas[i := m])"
      by (subst (asm) scan_j.simps) simp
    with lt r Some show ?thesis by (intro exI[of _ j] exI[of _ m]) auto
  qed
qed

lemma scan_i_sound:
  assumes "scan_i bmap antennas i = Inr (Some antennas')"
  shows "sound_merge bmap antennas antennas'"
  using assms
proof (induction bmap antennas i rule: scan_i.induct)
  case (1 bmap antennas i)
  from "1.prems" have lt: "i < length antennas"
    by (subst (asm) scan_i.simps) (auto split: if_splits)
  from "1.prems" lt obtain r where r: "scan_j bmap antennas i (i + 1) = Inr r"
    by (subst (asm) scan_i.simps) (auto split: sum.splits)
  show ?case
  proof (cases r)
    case None
    with "1.prems" lt r have "scan_i bmap antennas (i + 1) = Inr (Some antennas')"
      by (subst (asm) scan_i.simps) simp
    from "1.IH"[OF lt r None this] show ?thesis .
  next
    case (Some a')
    with "1.prems" lt r have a': "a' = antennas'"
      by (subst (asm) scan_i.simps) simp
    from scan_j_sound[OF r[unfolded Some a']]
    obtain j m where j: "i + 1 \<le> j" "j < length antennas"
      and tp: "try_pair bmap (antennas ! i) (antennas ! j) = Inr (Some m)"
      and eq: "antennas' = pop j (antennas[i := m])" by auto
    from try_pair_sound[OF tp] j eq show ?thesis
      unfolding sound_merge_def
      by (intro exI[of _ i] exI[of _ j] exI[of _ m]) auto
  qed
qed

lemma mset_pop_update:
  assumes "i < j" "j < length xs"
  shows "add_mset (xs ! i) (add_mset (xs ! j) (mset (pop j (xs[i := m])))) = add_mset m (mset xs)"
proof -
  define ys where "ys = xs[i := m]"
  from assms have j: "j < length ys" and nth: "ys ! j = xs ! j" by (auto simp: ys_def)
  have "mset ys = mset (take j ys @ ys ! j # drop (Suc j) ys)"
    by (rule arg_cong[where f = mset], rule id_take_nth_drop[OF j])
  also have "\<dots> = add_mset (xs ! j) (mset (pop j ys))"
    by (simp add: pop_def nth)
  finally have 1: "add_mset (xs ! j) (mset (pop j ys)) = mset ys" by simp
  have 2: "mset ys = add_mset m (mset xs - {#xs ! i#})"
    using assms by (simp add: mset_update ys_def)
  have 3: "add_mset (xs ! i) (mset xs - {#xs ! i#}) = mset xs"
    using assms by (intro insert_DiffM) simp
  have "add_mset (xs ! i) (add_mset (xs ! j) (mset (pop j ys))) =
        add_mset (xs ! i) (add_mset m (mset xs - {#xs ! i#}))"
    unfolding 1 2 ..
  also have "\<dots> = add_mset m (add_mset (xs ! i) (mset xs - {#xs ! i#}))"
    by (rule add_mset_commute)
  also have "\<dots> = add_mset m (mset xs)" unfolding 3 ..
  finally show ?thesis unfolding ys_def .
qed

lemma sound_merge_cost:
  assumes "sound_merge bmap antennas antennas'"
  shows "calculate_cost antennas' < calculate_cost antennas"
proof -
  from assms obtain i j m where ij: "i < j" "j < length antennas"
    and eq: "antennas' = pop j (antennas[i := m])"
    and c: "cost_on (a_type m) < cost_on (a_type (antennas ! i)) + cost_on (a_type (antennas ! j))"
    unfolding sound_merge_def by blast
  let ?f = "\<lambda>a. cost_on (a_type a)"
  have "sum_mset (image_mset ?f (add_mset (antennas ! i) (add_mset (antennas ! j) (mset antennas')))) =
        sum_mset (image_mset ?f (add_mset m (mset antennas)))"
    unfolding eq mset_pop_update[OF ij] ..
  then have "?f (antennas ! i) + ?f (antennas ! j) + calculate_cost antennas' =
        ?f m + calculate_cost antennas"
    by (simp add: calculate_cost_def sum_mset_sum_list[symmetric] del: sum_mset_sum_list)
  with c show ?thesis by linarith
qed

lemma sound_merge_mset:
  assumes "sound_merge bmap antennas antennas'"
  shows "mset (concat (map a_buildings antennas')) = mset (concat (map a_buildings antennas))"
proof -
  from assms obtain i j m where ij: "i < j" "j < length antennas"
    and eq: "antennas' = pop j (antennas[i := m])"
    and b: "a_buildings m = a_buildings (antennas ! i) @ a_buildings (antennas ! j)"
    unfolding sound_merge_def by blast
  let ?f = "\<lambda>a. mset (a_buildings a)"
  have conc: "mset (concat (map a_buildings xs)) = sum_mset (image_mset ?f (mset xs))" for xs
    by (induction xs) auto
  have "sum_mset (image_mset ?f (add_mset (antennas ! i) (add_mset (antennas ! j) (mset antennas')))) =
        sum_mset (image_mset ?f (add_mset m (mset antennas)))"
    unfolding eq mset_pop_update[OF ij] ..
  then have "?f (antennas ! i) + ?f (antennas ! j) + mset (concat (map a_buildings antennas')) =
        ?f m + mset (concat (map a_buildings antennas))"
    by (simp add: conc ac_simps)
  then show ?thesis by (simp add: b)
qed

lemma sound_merge_known:
  assumes "sound_merge bmap antennas antennas'" "known_ids bmap antennas"
  shows "known_ids bmap antennas'"
proof -
  from assms(1) obtain i j m where ij: "i < j" "j < length antennas"
    and eq: "antennas' = pop j (antennas[i := m])"
    and b: "a_buildings m = a_buildings (antennas ! i) @ a_buildings (antennas ! j)"
    unfolding sound_merge_def by blast
  from ij have "antennas ! i \<in> set antennas" "antennas ! j \<in> set antennas" by auto
  with assms(2) have m: "set (a_buildings m) \<subseteq> dom bmap"
    unfolding b known_ids_def by auto
  have sub: "set antennas' \<subseteq> insert m (set antennas)"
  proof
    fix a assume "a \<in> set antennas'"
    then have "a \<in> set (take j (antennas[i := m])) \<or> a \<in> set (drop (Suc j) (antennas[i := m]))"
      by (auto simp: eq pop_def)
    then have "a \<in> set (antennas[i := m])"
      by (auto dest: in_set_takeD in_set_dropD)
    then show "a \<in> insert m (set antennas)"
      using set_update_subset_insert[of antennas i m] by blast
  qed
  show ?thesis
    unfolding known_ids_def
  proof
    fix a assume "a \<in> set antennas'"
    with sub have "a = m \<or> a \<in> set antennas" by blast
    with m assms(2) show "set (a_buildings a) \<subseteq> dom bmap"
      unfolding known_ids_def by blast
  qed
qed

lemma scan_j_total:
  assumes "known_ids bmap antennas" "i < length antennas"
  shows "\<exists>r. scan_j bmap antennas i j = Inr r"
  using assms
proof (induction bmap antennas i j rule: scan_j.induct)
  case (1 bmap antennas i j)
  show ?case
  proof (cases "j < length antennas")
    case False
    then show ?thesis by (subst scan_j.simps) simp
  next
    case True
    with "1.prems" have "antennas ! i \<in> set antennas" "antennas ! j \<in> set antennas" by auto
    with "1.prems"(1) have "set (a_buildings (antennas ! i)) \<subseteq> dom bmap"
      "set (a_buildings (antennas ! j)) \<subseteq> dom bmap"
      unfolding known_ids_def by auto
    from try_pair_total[OF this] obtain r where
      r: "try_pair bmap (antennas ! i) (antennas ! j) = Inr r" by blast
    show ?thesis
    proof (cases r)
      case None
      from "1.IH"[OF True r None "1.prems"] obtain r' where
        "scan_j bmap antennas i (j + 1) = Inr r'" by blast
      with True r None show ?thesis by (subst scan_j.simps) simp
    next
      case (Some m)
      with True r show ?thesis by (subst scan_j.simps) simp
    qed
  qed
qed

lemma scan_i_total:
  assumes "known_ids bmap antennas"
  shows "\<exists>r. scan_i bmap antennas i = Inr r"
  using assms
proof (induction bmap antennas i rule: scan_i.induct)
  case (1 bmap antennas i)
  show ?case
  proof (cases "i < length antennas")
    case False
    then show ?thesis by (subst scan_i.simps) simp
  next
    case True
    from scan_j_total[OF "1.prems" True] obtain r where
      r: "scan_j bmap antennas i (i + 1) = Inr r" by blast
    show ?thesis
    proof (cases r)
      case None
      from "1.IH"[OF True r None "1.prems"] obtain r' where
        "scan_i bmap antennas (i + 1) = Inr r'" by blast
      with True r None show ?thesis by (subst scan_i.simps) simp
    next
      case (Some a')
      with True r show ?thesis by (subst scan_i.simps) simp
    qed
  qed
qed

lemma try_merge_loop_spec:
  assumes "known_ids bmap antennas"
  shows "\<exists>res. try_merge_loop bmap antennas = Inr res \<and>
           (committed bmap)\<^sup>*\<^sup>* antennas res \<and> scan_i bmap res 0 = Inr None"
  using assms
proof (induction bmap antennas rule: try_merge_loop.induct)
  case (1 bmap antennas)
  from scan_i_total[OF "1.prems"] obtain r where r: "scan_i bmap antennas 0 = Inr r" by blast
  show ?case
  proof (cases r)
    case None
    with r have "try_merge_loop bmap antennas = Inr antennas"
      by (subst try_merge_loop.simps) simp
    with r None show ?thesis by auto
  next
    case (Some a')
    with r have c: "committed bmap antennas a'" by (simp add: committed_def)
    from scan_i_sound[OF r[unfolded Some]] "1.prems" have "known_ids bmap a'"
      by (rule sound_merge_known)
    from "1.IH"[OF r Some this] obtain res where res: "try_merge_loop bmap a' = Inr res"
      "(committed bmap)\<^sup>*\<^sup>* a' res" "scan_i bmap res 0 = Inr None" by blast
    from r Some res(1) have "try_merge_loop bmap antennas = Inr res"
      by (subst try_merge_loop.simps) simp
    moreover from c res(2) have "(committed bmap)\<^sup>*\<^sup>* antennas res"
      by (rule converse_rtranclp_into_rtranclp)
    ultimately show ?thesis using res(3) by blast
  qed
qed

lemma committed_sound: "committed bmap a a' \<Longrightarrow> sound_merge bmap a a'"
  unfolding committed_def by (rule scan_i_sound)

lemma committed_chain:
  assumes "(committed bmap)\<^sup>*\<^sup>* a b"
  shows "calculate_cost b \<le> calculate_cost a \<and>
         (b \<noteq> a \<longrightarrow> calculate_cost b < calculate_cost a) \<and>
         mset (concat (map a_buildings b)) = mset (concat (map a_buildings a))"
  using assms
proof (induction rule: rtranclp_induct)
  case base
  show ?case by simp
next
  case (step y z)
  from step.hyps(2) have s: "sound_merge bmap y z" by (rule committed_sound)
  from sound_merge_cost[OF s] sound_merge_mset[OF s] step.IH show ?case by auto
qed

lemma ex_commit: "scan_i (mk_bmap ex_buildings) ex_nanos 0 = Inr (Some ex_merged)"
  unfolding ex_bmap
  by (subst scan_i.simps, subst scan_j.simps)
    (simp add: try_pair_def merge_candidates_def pop_def ex_nanos_def ex_merged_def
      ex_b1_def ex_b2_def ex_b3_def get_max_pop_def dist_sq_def Let_def)

text \<open>
  Claim C5. For a solution whose building ids are all ids of the dataset,
  \<^verbatim>\<open>try_merge_antennas\<close> returns a solution that it reaches by a chain of committed
  merges and in which the scan commits no further merge. Every committed merge is
  sound: the merged antenna sits at the position of one of the two antennas, holds
  the concatenation of their building lists, has a type whose capacity holds the
  total demand and whose radius reaches every building of the list, and costs
  strictly less than the two antennas together; so it strictly decreases the total
  cost and keeps the multiset of assigned buildings. The result costs at most as much
  as the solution and assigns the same buildings.
\<close>

theorem try_merge_sound:
  assumes "\<forall>a\<in>set solution. set (a_buildings a) \<subseteq> b_id ` set dataset"
  shows "\<exists>result. try_merge_antennas solution dataset = Inr result \<and>
     (committed (mk_bmap dataset))\<^sup>*\<^sup>* solution result \<and>
     scan_i (mk_bmap dataset) result 0 = Inr None \<and>
     (\<forall>a a'. committed (mk_bmap dataset) a a' \<longrightarrow>
        sound_merge (mk_bmap dataset) a a' \<and>
        calculate_cost a' < calculate_cost a \<and>
        mset (concat (map a_buildings a')) = mset (concat (map a_buildings a))) \<and>
     calculate_cost result \<le> calculate_cost solution \<and>
     mset (concat (map a_buildings result)) = mset (concat (map a_buildings solution))"
proof -
  from assms have "known_ids (mk_bmap dataset) solution"
    by (simp add: known_ids_def dom_mk_bmap)
  from try_merge_loop_spec[OF this] obtain res where
    res: "try_merge_loop (mk_bmap dataset) solution = Inr res"
    and ch: "(committed (mk_bmap dataset))\<^sup>*\<^sup>* solution res"
    and fin: "scan_i (mk_bmap dataset) res 0 = Inr None" by blast
  have step: "\<forall>a a'. committed (mk_bmap dataset) a a' \<longrightarrow>
        sound_merge (mk_bmap dataset) a a' \<and>
        calculate_cost a' < calculate_cost a \<and>
        mset (concat (map a_buildings a')) = mset (concat (map a_buildings a))"
    using committed_sound sound_merge_cost sound_merge_mset by blast
  from committed_chain[OF ch] res ch fin step show ?thesis
    by (auto simp: try_merge_antennas_def)
qed

theorem try_merge_sound_witness:
  "list_all (\<lambda>a. set (a_buildings a) \<subseteq> b_id ` set ex_buildings) ex_nanos \<and>
   committed (mk_bmap ex_buildings) ex_nanos ex_merged \<and>
   sound_merge (mk_bmap ex_buildings) ex_nanos ex_merged \<and>
   calculate_cost ex_merged < calculate_cost ex_nanos \<and>
   (\<exists>result. try_merge_antennas ex_nanos ex_buildings = Inr result \<and>
      calculate_cost result \<le> calculate_cost ex_nanos)"
proof -
  have h: "\<forall>a\<in>set ex_nanos. set (a_buildings a) \<subseteq> b_id ` set ex_buildings"
    by (simp add: ex_nanos_def ex_buildings_def ex_b1_def ex_b2_def ex_b3_def)
  have c: "committed (mk_bmap ex_buildings) ex_nanos ex_merged"
    by (simp add: committed_def ex_commit)
  from try_merge_sound[OF h] obtain result where
    r: "try_merge_antennas ex_nanos ex_buildings = Inr result"
      "calculate_cost result \<le> calculate_cost ex_nanos"
    and s: "\<forall>a a'. committed (mk_bmap ex_buildings) a a' \<longrightarrow>
        sound_merge (mk_bmap ex_buildings) a a' \<and>
        calculate_cost a' < calculate_cost a \<and>
        mset (concat (map a_buildings a')) = mset (concat (map a_buildings a))"
    by blast
  from s c have "sound_merge (mk_bmap ex_buildings) ex_nanos ex_merged"
    "calculate_cost ex_merged < calculate_cost ex_nanos" by blast+
  with h c r show ?thesis unfolding list_all_iff by blast
qed

section \<open>Properties of the greedy constructor\<close>

lemma in_range_scan_eq:
  assumes "set ids \<subseteq> dom bmap"
  shows "in_range_scan bmap x y t ids = Inr (considered bmap x y ids t)"
  using assms
  by (induction ids) (auto simp: considered_def in_radius_def demand_def split: option.splits)

lemma pack_accumulate:
  "pack cap xs (sel, tot) =
     (sel @ map fst (accumulate (cap - tot) xs),
      tot + sum_list (map snd (accumulate (cap - tot) xs)))"
proof (induction xs arbitrary: sel tot)
  case Nil
  show ?case by simp
next
  case (Cons p xs)
  obtain bid d where p: "p = (bid, d)" by (cases p)
  show ?case
  proof (cases "tot + d \<le> cap")
    case True
    have eq: "cap - (tot + d) = cap - tot - d" by simp
    from True have "d \<le> cap - tot" by simp
    with True show ?thesis
      unfolding p by (simp add: Cons.IH[of "sel @ [bid]" "tot + d"] eq)
  next
    case False
    then have "\<not> d \<le> cap - tot" by simp
    with False show ?thesis
      unfolding p by (simp add: Cons.IH[of sel tot])
  qed
qed

lemma accumulate_sum:
  "0 \<le> room \<Longrightarrow> sum_list (map snd (accumulate room xs)) \<le> room"
proof (induction xs arbitrary: room)
  case Nil
  then show ?case by simp
next
  case (Cons p xs)
  obtain bid d where p: "p = (bid, d)" by (cases p)
  show ?case
  proof (cases "d \<le> room")
    case True
    then have "0 \<le> room - d" by simp
    from Cons.IH[OF this] True show ?thesis unfolding p by simp
  next
    case False
    with Cons.IH[OF Cons.prems] show ?thesis unfolding p by simp
  qed
qed

lemma accumulate_subset: "set (accumulate room xs) \<subseteq> set xs"
proof (induction xs arbitrary: room)
  case Nil
  show ?case by simp
next
  case (Cons p xs)
  obtain bid d where p: "p = (bid, d)" by (cases p)
  from Cons.IH[of room] Cons.IH[of "room - d"] show ?case unfolding p by auto
qed

lemma accumulate_none:
  "list_all (\<lambda>p. room < snd p) xs \<Longrightarrow> accumulate room xs = []"
  by (induction xs) auto

lemma sorted_tail_above:
  assumes "sorted (map snd (p # xs))" "room < snd p"
  shows "list_all (\<lambda>q. room < snd (q :: nat \<times> int)) xs"
  using assms unfolding list_all_iff by fastforce

lemma accumulate_prefix:
  "sorted (map snd xs) \<Longrightarrow> accumulate room xs = take (length (accumulate room xs)) xs"
proof (induction xs arbitrary: room)
  case Nil
  show ?case by simp
next
  case (Cons p xs)
  obtain bid d where p: "p = (bid, d)" by (cases p)
  from Cons.prems have srt: "sorted (map snd xs)" by simp
  show ?case
  proof (cases "d \<le> room")
    case True
    with Cons.IH[OF srt, of "room - d"] show ?thesis unfolding p by simp
  next
    case False
    then have "room < snd p" by (simp add: p)
    from accumulate_none[OF sorted_tail_above[OF Cons.prems this]] False
    show ?thesis unfolding p by simp
  qed
qed

lemma accumulate_next:
  assumes "sorted (map snd xs)" "length (accumulate room xs) < length xs"
  shows "room < sum_list (map snd (accumulate room xs)) + snd (xs ! length (accumulate room xs))"
  using assms
proof (induction xs arbitrary: room)
  case Nil
  then show ?case by simp
next
  case (Cons p xs)
  obtain bid d where p: "p = (bid, d)" by (cases p)
  from Cons.prems(1) have srt: "sorted (map snd xs)" by simp
  show ?case
  proof (cases "d \<le> room")
    case True
    with Cons.prems(2) have "length (accumulate (room - d) xs) < length xs"
      by (simp add: p)
    from Cons.IH[OF srt this] True show ?thesis unfolding p by simp
  next
    case False
    then have "room < snd p" by (simp add: p)
    from accumulate_none[OF sorted_tail_above[OF Cons.prems(1) this]] False
    show ?thesis unfolding p by simp
  qed
qed

lemma capacity_nonneg: "0 \<le> capacity t"
  by (cases t) simp_all

lemma selection_props:
  "sum_list (map snd (selection bmap x y unc t)) \<le> capacity t"
  "selection bmap x y unc t =
     take (length (selection bmap x y unc t)) (sort_key snd (considered bmap x y unc t))"
  "length (selection bmap x y unc t) < length (considered bmap x y unc t) \<Longrightarrow>
     capacity t < sum_list (map snd (selection bmap x y unc t))
                    + snd (sort_key snd (considered bmap x y unc t)
                             ! length (selection bmap x y unc t))"
  "set (selection bmap x y unc t) \<subseteq> set (considered bmap x y unc t)"
proof -
  have srt: "sorted (map snd (sort_key snd (considered bmap x y unc t)))"
    by (rule sorted_sort_key)
  show "sum_list (map snd (selection bmap x y unc t)) \<le> capacity t"
    unfolding selection_def by (rule accumulate_sum[OF capacity_nonneg])
  show "selection bmap x y unc t =
     take (length (selection bmap x y unc t)) (sort_key snd (considered bmap x y unc t))"
    unfolding selection_def by (rule accumulate_prefix[OF srt])
  show "capacity t < sum_list (map snd (selection bmap x y unc t))
                    + snd (sort_key snd (considered bmap x y unc t)
                             ! length (selection bmap x y unc t))"
    if "length (selection bmap x y unc t) < length (considered bmap x y unc t)"
    using accumulate_next[OF srt, of "capacity t"] that unfolding selection_def by simp
  show "set (selection bmap x y unc t) \<subseteq> set (considered bmap x y unc t)"
    using accumulate_subset[of "capacity t" "sort_key snd (considered bmap x y unc t)"]
    unfolding selection_def by simp
qed

lemma considered_mem:
  "(bid, d) \<in> set (considered bmap x y unc t) \<Longrightarrow>
     bid \<in> set unc \<and> in_radius bmap x y t bid \<and> d = demand bmap bid"
  by (auto simp: considered_def)

lemma fba_type_selection:
  fixes ops :: "('s::linorder) score_ops"
  assumes "set unc \<subseteq> dom bmap"
  shows "fba_type ops bmap x y unc pc st t =
     (if selection bmap x y unc t = [] then Inr st
      else case selection_score ops pc bmap x y unc t of
             Inl e \<Rightarrow> Inl e
           | Inr sc \<Rightarrow>
               if sc > snd st
               then Inr (Some (t, map fst (selection bmap x y unc t), sc), sc)
               else Inr st)"
proof (cases "considered bmap x y unc t = []")
  case True
  then show ?thesis
    unfolding selection_score_def selection_def fba_type_def in_range_scan_eq[OF assms]
    by simp
next
  case False
  then show ?thesis
    unfolding selection_score_def selection_def fba_type_def in_range_scan_eq[OF assms]
      pack_accumulate
    by simp
qed

lemma fba_loop_char:
  fixes ops :: "('s::linorder) score_ops" and sc :: "atype \<Rightarrow> 's"
  assumes "\<And>st t. t \<in> set ts \<Longrightarrow>
     fba_type ops bmap x y unc pc st t =
       Inr (if E t \<and> sc t > snd st then (Some (t, ids t, sc t), sc t) else st)"
  shows "\<exists>b' s'. fba_loop ops bmap x y unc pc (b, s) ts = Inr (b', s') \<and>
     ((b' = b \<and> s' = s \<and> (\<forall>t\<in>set ts. E t \<longrightarrow> \<not> sc t > s)) \<or>
      (\<exists>ys t zs. ts = ys @ t # zs \<and> E t \<and> b' = Some (t, ids t, sc t) \<and> s' = sc t \<and>
          sc t > s \<and>
          (\<forall>u\<in>set ys. E u \<longrightarrow> sc u < sc t) \<and> (\<forall>u\<in>set zs. E u \<longrightarrow> sc u \<le> sc t)))"
  using assms
proof (induction ts arbitrary: b s)
  case Nil
  show ?case by simp
next
  case (Cons t ts)
  have st: "\<And>st u. u \<in> set ts \<Longrightarrow>
     fba_type ops bmap x y unc pc st u =
       Inr (if E u \<and> sc u > snd st then (Some (u, ids u, sc u), sc u) else st)"
    using Cons.prems by simp
  show ?case
  proof (cases "E t \<and> sc t > s")
    case True
    have f: "fba_type ops bmap x y unc pc (b, s) t = Inr (Some (t, ids t, sc t), sc t)"
      using Cons.prems[of t "(b, s)"] True by simp
    from Cons.IH[OF st, of "Some (t, ids t, sc t)" "sc t"] obtain b' s' where
      l: "fba_loop ops bmap x y unc pc (Some (t, ids t, sc t), sc t) ts = Inr (b', s')"
      and d: "(b' = Some (t, ids t, sc t) \<and> s' = sc t \<and> (\<forall>u\<in>set ts. E u \<longrightarrow> \<not> sc u > sc t)) \<or>
        (\<exists>ys u zs. ts = ys @ u # zs \<and> E u \<and> b' = Some (u, ids u, sc u) \<and> s' = sc u \<and>
          sc u > sc t \<and>
          (\<forall>v\<in>set ys. E v \<longrightarrow> sc v < sc u) \<and> (\<forall>v\<in>set zs. E v \<longrightarrow> sc v \<le> sc u))"
      by blast
    have L: "fba_loop ops bmap x y unc pc (b, s) (t # ts) = Inr (b', s')"
      using f l by simp
    from d have "\<exists>ys u zs. t # ts = ys @ u # zs \<and> E u \<and> b' = Some (u, ids u, sc u) \<and>
          s' = sc u \<and> sc u > s \<and>
          (\<forall>v\<in>set ys. E v \<longrightarrow> sc v < sc u) \<and> (\<forall>v\<in>set zs. E v \<longrightarrow> sc v \<le> sc u)"
    proof
      assume a: "b' = Some (t, ids t, sc t) \<and> s' = sc t \<and> (\<forall>u\<in>set ts. E u \<longrightarrow> \<not> sc u > sc t)"
      show ?thesis
        by (rule exI[of _ "[]"], rule exI[of _ t], rule exI[of _ ts])
          (use a True in \<open>auto simp: not_less\<close>)
    next
      assume "\<exists>ys u zs. ts = ys @ u # zs \<and> E u \<and> b' = Some (u, ids u, sc u) \<and> s' = sc u \<and>
          sc u > sc t \<and>
          (\<forall>v\<in>set ys. E v \<longrightarrow> sc v < sc u) \<and> (\<forall>v\<in>set zs. E v \<longrightarrow> sc v \<le> sc u)"
      then obtain ys u zs where a: "ts = ys @ u # zs" "E u" "b' = Some (u, ids u, sc u)"
        "s' = sc u" "sc u > sc t" "\<forall>v\<in>set ys. E v \<longrightarrow> sc v < sc u"
        "\<forall>v\<in>set zs. E v \<longrightarrow> sc v \<le> sc u"
        by blast
      from a(5) True have "sc u > s" by auto
      show ?thesis
        by (rule exI[of _ "t # ys"], rule exI[of _ u], rule exI[of _ zs])
          (use a \<open>sc u > s\<close> in auto)
    qed
    with L show ?thesis by blast
  next
    case False
    have f: "fba_type ops bmap x y unc pc (b, s) t = Inr (b, s)"
      using Cons.prems[of t "(b, s)"] False by auto
    from Cons.IH[OF st, of b s] obtain b' s' where
      l: "fba_loop ops bmap x y unc pc (b, s) ts = Inr (b', s')"
      and d: "(b' = b \<and> s' = s \<and> (\<forall>u\<in>set ts. E u \<longrightarrow> \<not> sc u > s)) \<or>
        (\<exists>ys u zs. ts = ys @ u # zs \<and> E u \<and> b' = Some (u, ids u, sc u) \<and> s' = sc u \<and>
          sc u > s \<and>
          (\<forall>v\<in>set ys. E v \<longrightarrow> sc v < sc u) \<and> (\<forall>v\<in>set zs. E v \<longrightarrow> sc v \<le> sc u))"
      by blast
    have L: "fba_loop ops bmap x y unc pc (b, s) (t # ts) = Inr (b', s')"
      using f l by simp
    from d show ?thesis
    proof
      assume "b' = b \<and> s' = s \<and> (\<forall>u\<in>set ts. E u \<longrightarrow> \<not> sc u > s)"
      with False L show ?thesis by auto
    next
      assume "\<exists>ys u zs. ts = ys @ u # zs \<and> E u \<and> b' = Some (u, ids u, sc u) \<and> s' = sc u \<and>
          sc u > s \<and>
          (\<forall>v\<in>set ys. E v \<longrightarrow> sc v < sc u) \<and> (\<forall>v\<in>set zs. E v \<longrightarrow> sc v \<le> sc u)"
      then obtain ys u zs where a: "ts = ys @ u # zs" "E u" "b' = Some (u, ids u, sc u)"
        "s' = sc u" "sc u > s" "\<forall>v\<in>set ys. E v \<longrightarrow> sc v < sc u"
        "\<forall>v\<in>set zs. E v \<longrightarrow> sc v \<le> sc u"
        by blast
      from False a(5) have t: "E t \<longrightarrow> sc t < sc u" by auto
      have "\<exists>ys u zs. t # ts = ys @ u # zs \<and> E u \<and> b' = Some (u, ids u, sc u) \<and>
          s' = sc u \<and> sc u > s \<and>
          (\<forall>v\<in>set ys. E v \<longrightarrow> sc v < sc u) \<and> (\<forall>v\<in>set zs. E v \<longrightarrow> sc v \<le> sc u)"
        by (rule exI[of _ "t # ys"], rule exI[of _ u], rule exI[of _ zs])
          (use a t in auto)
      with L show ?thesis by blast
    qed
  qed
qed

lemma fba_order:
  assumes "[Density, MaxRange, Spot, Nano] = ys @ t # zs"
  shows "(\<forall>u\<in>set ys. fba_rank u < fba_rank t) \<and> (\<forall>u\<in>set zs. fba_rank t < fba_rank u)"
proof -
  have "sorted_wrt (\<lambda>a b. fba_rank a < fba_rank b) [Density, MaxRange, Spot, Nano]"
    by simp
  then have "sorted_wrt (\<lambda>a b. fba_rank a < fba_rank b) (ys @ t # zs)"
    unfolding assms .
  then show ?thesis by (auto simp: sorted_wrt_append)
qed

lemma fba_rank_inj: "fba_rank a = fba_rank b \<Longrightarrow> a = b"
  by (cases a; cases b) simp_all

lemma fba_types_all: "t \<in> set [Density, MaxRange, Spot, Nano]"
  by (cases t) simp_all

lemma find_best_antenna_char:
  fixes ops :: "('s::linorder) score_ops" and sc :: "atype \<Rightarrow> 's"
  assumes dom: "set unc \<subseteq> dom bmap"
    and sc: "\<And>t. selection bmap x y unc t \<noteq> [] \<Longrightarrow>
                 selection_score ops pc bmap x y unc t = Inr (sc t)"
  shows "\<exists>r. find_best_antenna ops x y unc bmap pc = Inr r \<and>
     ((r = None \<and> (\<forall>t. selection bmap x y unc t \<noteq> [] \<longrightarrow> \<not> sc t > s_minus_one ops)) \<or>
      (\<exists>t. r = Some (t, map fst (selection bmap x y unc t), sc t) \<and>
           selection bmap x y unc t \<noteq> [] \<and> sc t > s_minus_one ops \<and>
           (\<forall>u. selection bmap x y unc u \<noteq> [] \<longrightarrow>
                 sc u \<le> sc t \<and> (fba_rank u < fba_rank t \<longrightarrow> sc u < sc t))))"
proof -
  define E where "E t \<longleftrightarrow> selection bmap x y unc t \<noteq> []" for t
  define ids where "ids t = map fst (selection bmap x y unc t)" for t
  have step: "fba_type ops bmap x y unc pc st t =
       Inr (if E t \<and> sc t > snd st then (Some (t, ids t, sc t), sc t) else st)" for st t
  proof (cases "E t")
    case True
    then have "selection bmap x y unc t \<noteq> []" by (simp add: E_def)
    from sc[OF this] this show ?thesis
      by (simp add: fba_type_selection[OF dom] E_def ids_def)
  next
    case False
    then show ?thesis by (simp add: fba_type_selection[OF dom] E_def)
  qed
  from fba_loop_char[of "[Density, MaxRange, Spot, Nano]" ops bmap x y unc pc E sc ids None
      "s_minus_one ops", OF step]
  obtain b' s' where
    l: "fba_loop ops bmap x y unc pc (None, s_minus_one ops) [Density, MaxRange, Spot, Nano]
          = Inr (b', s')"
    and d: "(b' = None \<and> s' = s_minus_one ops \<and>
             (\<forall>t\<in>set [Density, MaxRange, Spot, Nano]. E t \<longrightarrow> \<not> sc t > s_minus_one ops)) \<or>
      (\<exists>ys t zs. [Density, MaxRange, Spot, Nano] = ys @ t # zs \<and> E t \<and>
          b' = Some (t, ids t, sc t) \<and> s' = sc t \<and> sc t > s_minus_one ops \<and>
          (\<forall>u\<in>set ys. E u \<longrightarrow> sc u < sc t) \<and> (\<forall>u\<in>set zs. E u \<longrightarrow> sc u \<le> sc t))"
    by blast
  have r: "find_best_antenna ops x y unc bmap pc = Inr b'"
    unfolding find_best_antenna_def l by simp
  from d show ?thesis
  proof
    assume "b' = None \<and> s' = s_minus_one ops \<and>
             (\<forall>t\<in>set [Density, MaxRange, Spot, Nano]. E t \<longrightarrow> \<not> sc t > s_minus_one ops)"
    then have "b' = None" and "\<forall>t. E t \<longrightarrow> \<not> sc t > s_minus_one ops"
      using fba_types_all by blast+
    with r show ?thesis unfolding E_def by blast
  next
    assume "\<exists>ys t zs. [Density, MaxRange, Spot, Nano] = ys @ t # zs \<and> E t \<and>
          b' = Some (t, ids t, sc t) \<and> s' = sc t \<and> sc t > s_minus_one ops \<and>
          (\<forall>u\<in>set ys. E u \<longrightarrow> sc u < sc t) \<and> (\<forall>u\<in>set zs. E u \<longrightarrow> sc u \<le> sc t)"
    then obtain ys t zs where a: "[Density, MaxRange, Spot, Nano] = ys @ t # zs" "E t"
      "b' = Some (t, ids t, sc t)" "sc t > s_minus_one ops"
      "\<forall>u\<in>set ys. E u \<longrightarrow> sc u < sc t" "\<forall>u\<in>set zs. E u \<longrightarrow> sc u \<le> sc t"
      by blast
    note ord = fba_order[OF a(1)]
    have "sc u \<le> sc t \<and> (fba_rank u < fba_rank t \<longrightarrow> sc u < sc t)" if "E u" for u
    proof -
      have "u \<in> set (ys @ t # zs)" using fba_types_all[of u] unfolding a(1) .
      then consider "u \<in> set ys" | "u = t" | "u \<in> set zs" by auto
      then show ?thesis
      proof cases
        case 1
        with a(5) that show ?thesis by auto
      next
        case 2
        then show ?thesis by simp
      next
        case 3
        with ord have "\<not> fba_rank u < fba_rank t" by auto
        with a(6) 3 that show ?thesis by auto
      qed
    qed
    with a(2,3,4) r show ?thesis unfolding E_def ids_def by blast
  qed
qed

lemma ex_considered:
  "considered (mk_bmap ex_buildings) 0 0 [1, 2, 3] Nano = [(1, 100), (2, 100)]"
  unfolding ex_bmap
  by (simp add: considered_def in_radius_def demand_def ex_b1_def ex_b2_def ex_b3_def
      get_max_pop_def dist_sq_def)

lemma ex_selection:
  "selection (mk_bmap ex_buildings) 0 0 [1, 2, 3] Nano = [(1, 100), (2, 100)]"
  unfolding selection_def ex_considered by simp

lemma ex_score_total:
  "cost \<noteq> 0 \<Longrightarrow> \<exists>s. score ex_sops pc sel tot cost = Inr s"
  by (simp add: score_def ex_sops_def)

lemma cost_on_nonzero: "cost_on t \<noteq> 0"
  by (cases t) simp_all

lemma ex_scores:
  "\<exists>s. selection_score ex_sops pc bmap x y unc t = Inr s"
  unfolding selection_score_def by (rule ex_score_total[OF cost_on_nonzero])

lemma ex_find_best:
  "find_best_antenna ex_sops 0 0 [1, 2, 3] (mk_bmap ex_buildings) False =
     Inr (Some (Nano, [1, 2], 101 / 25))"
  unfolding ex_bmap
  by (simp add: find_best_antenna_def fba_type_def score_def ex_sops_def
      ex_b1_def ex_b2_def ex_b3_def get_max_pop_def dist_sq_def Let_def)

text \<open>
  Claim C8. Let the uncovered ids all be keys of the building map, and let the score
  of every type with a non-empty selection be computed without an exception. For
  every antenna type, the selection is the greedy accumulation into the type's
  capacity of exactly the uncovered buildings within the type's radius of the
  position, taken in ascending order of demand (\<open>sort_key snd\<close> is the stable sort
  by demand): its total demand is at most the capacity; it is an initial segment of
  the ascending sequence, so no building that is left out has a smaller demand than
  one that is selected, and the first building that is left out does not fit; and
  every selected building is an uncovered one within the radius, with its own demand.
  \<^verbatim>\<open>find_best_antenna\<close> returns without an exception. It returns \<^verbatim>\<open>None\<close> exactly
  when no type has a non-empty selection whose score is above \<open>- 1\<close>. It returns a
  type with a list of ids and a score exactly when the list is the non-empty
  selection of the type, the score is the score of that selection and is above \<open>- 1\<close>,
  no other type's non-empty selection scores higher, and none of the types tried
  before it scores as high.
\<close>

theorem find_best_antenna_packing:
  fixes ops :: "('s::linorder) score_ops"
  assumes "set uncovered_ids \<subseteq> dom bmap"
    and "\<forall>atype. selection bmap x y uncovered_ids atype \<noteq> [] \<longrightarrow>
           (\<exists>s. selection_score ops prefer_capacity bmap x y uncovered_ids atype = Inr s)"
  shows
    "(\<forall>atype.
        sum_list (map snd (selection bmap x y uncovered_ids atype)) \<le> capacity atype \<and>
        selection bmap x y uncovered_ids atype =
          take (length (selection bmap x y uncovered_ids atype))
               (sort_key snd (considered bmap x y uncovered_ids atype)) \<and>
        (length (selection bmap x y uncovered_ids atype)
           < length (considered bmap x y uncovered_ids atype) \<longrightarrow>
         capacity atype
           < sum_list (map snd (selection bmap x y uncovered_ids atype))
               + snd (sort_key snd (considered bmap x y uncovered_ids atype)
                        ! length (selection bmap x y uncovered_ids atype))) \<and>
        (\<forall>(bid, d)\<in>set (selection bmap x y uncovered_ids atype).
           bid \<in> set uncovered_ids \<and> in_radius bmap x y atype bid \<and> d = demand bmap bid)) \<and>
     (\<exists>r. find_best_antenna ops x y uncovered_ids bmap prefer_capacity = Inr r \<and>
        (r = None \<longleftrightarrow>
           (\<forall>atype s. selection bmap x y uncovered_ids atype \<noteq> [] \<and>
                selection_score ops prefer_capacity bmap x y uncovered_ids atype = Inr s
                \<longrightarrow> \<not> s > s_minus_one ops)) \<and>
        (\<forall>atype selected sc.
           r = Some (atype, selected, sc) \<longleftrightarrow>
             selection bmap x y uncovered_ids atype \<noteq> [] \<and>
             selected = map fst (selection bmap x y uncovered_ids atype) \<and>
             selection_score ops prefer_capacity bmap x y uncovered_ids atype = Inr sc \<and>
             sc > s_minus_one ops \<and>
             (\<forall>t s. selection bmap x y uncovered_ids t \<noteq> [] \<and>
                    selection_score ops prefer_capacity bmap x y uncovered_ids t = Inr s
                    \<longrightarrow> s \<le> sc \<and> (fba_rank t < fba_rank atype \<longrightarrow> s < sc))))"
proof (rule conjI)
  show "\<forall>atype.
        sum_list (map snd (selection bmap x y uncovered_ids atype)) \<le> capacity atype \<and>
        selection bmap x y uncovered_ids atype =
          take (length (selection bmap x y uncovered_ids atype))
               (sort_key snd (considered bmap x y uncovered_ids atype)) \<and>
        (length (selection bmap x y uncovered_ids atype)
           < length (considered bmap x y uncovered_ids atype) \<longrightarrow>
         capacity atype
           < sum_list (map snd (selection bmap x y uncovered_ids atype))
               + snd (sort_key snd (considered bmap x y uncovered_ids atype)
                        ! length (selection bmap x y uncovered_ids atype))) \<and>
        (\<forall>(bid, d)\<in>set (selection bmap x y uncovered_ids atype).
           bid \<in> set uncovered_ids \<and> in_radius bmap x y atype bid \<and> d = demand bmap bid)"
  proof (intro allI conjI impI)
    fix atype
    show "sum_list (map snd (selection bmap x y uncovered_ids atype)) \<le> capacity atype"
      by (rule selection_props(1))
    show "selection bmap x y uncovered_ids atype =
          take (length (selection bmap x y uncovered_ids atype))
               (sort_key snd (considered bmap x y uncovered_ids atype))"
      by (rule selection_props(2))
    show "capacity atype
           < sum_list (map snd (selection bmap x y uncovered_ids atype))
               + snd (sort_key snd (considered bmap x y uncovered_ids atype)
                        ! length (selection bmap x y uncovered_ids atype))"
      if "length (selection bmap x y uncovered_ids atype)
           < length (considered bmap x y uncovered_ids atype)"
      using that by (rule selection_props(3))
    show "\<forall>(bid, d)\<in>set (selection bmap x y uncovered_ids atype).
           bid \<in> set uncovered_ids \<and> in_radius bmap x y atype bid \<and> d = demand bmap bid"
      using selection_props(4)[of bmap x y uncovered_ids atype] considered_mem[of _ _ bmap x y uncovered_ids atype]
      by blast
  qed
next
  define sc where "sc t = (case selection_score ops prefer_capacity bmap x y uncovered_ids t of
                             Inr s \<Rightarrow> s | Inl e \<Rightarrow> s_minus_one ops)" for t
  have sc: "selection_score ops prefer_capacity bmap x y uncovered_ids t = Inr (sc t)"
    if "selection bmap x y uncovered_ids t \<noteq> []" for t
    using assms(2) that by (auto simp: sc_def)
  have sc_eq: "s = sc t"
    if "selection bmap x y uncovered_ids t \<noteq> []"
      "selection_score ops prefer_capacity bmap x y uncovered_ids t = Inr s" for t s
    using sc[OF that(1)] that(2) by simp
  from find_best_antenna_char[OF assms(1), of x y ops prefer_capacity sc, OF sc]
  obtain r where
    r: "find_best_antenna ops x y uncovered_ids bmap prefer_capacity = Inr r"
    and d: "(r = None \<and>
         (\<forall>t. selection bmap x y uncovered_ids t \<noteq> [] \<longrightarrow> \<not> sc t > s_minus_one ops)) \<or>
      (\<exists>t. r = Some (t, map fst (selection bmap x y uncovered_ids t), sc t) \<and>
           selection bmap x y uncovered_ids t \<noteq> [] \<and> sc t > s_minus_one ops \<and>
           (\<forall>u. selection bmap x y uncovered_ids u \<noteq> [] \<longrightarrow>
                 sc u \<le> sc t \<and> (fba_rank u < fba_rank t \<longrightarrow> sc u < sc t)))"
    by blast
  have "(r = None \<longleftrightarrow>
           (\<forall>atype s. selection bmap x y uncovered_ids atype \<noteq> [] \<and>
                selection_score ops prefer_capacity bmap x y uncovered_ids atype = Inr s
                \<longrightarrow> \<not> s > s_minus_one ops)) \<and>
        (\<forall>atype selected sc.
           r = Some (atype, selected, sc) \<longleftrightarrow>
             selection bmap x y uncovered_ids atype \<noteq> [] \<and>
             selected = map fst (selection bmap x y uncovered_ids atype) \<and>
             selection_score ops prefer_capacity bmap x y uncovered_ids atype = Inr sc \<and>
             sc > s_minus_one ops \<and>
             (\<forall>t s. selection bmap x y uncovered_ids t \<noteq> [] \<and>
                    selection_score ops prefer_capacity bmap x y uncovered_ids t = Inr s
                    \<longrightarrow> s \<le> sc \<and> (fba_rank t < fba_rank atype \<longrightarrow> s < sc)))"
    using d
  proof
    assume a: "r = None \<and>
         (\<forall>t. selection bmap x y uncovered_ids t \<noteq> [] \<longrightarrow> \<not> sc t > s_minus_one ops)"
    have n: "\<not> s > s_minus_one ops"
      if "selection bmap x y uncovered_ids t \<noteq> []"
        "selection_score ops prefer_capacity bmap x y uncovered_ids t = Inr s" for t s
      using a sc_eq[OF that] that(1) by blast
    from a have "r = None" by simp
    with n show ?thesis by blast
  next
    assume "\<exists>t. r = Some (t, map fst (selection bmap x y uncovered_ids t), sc t) \<and>
           selection bmap x y uncovered_ids t \<noteq> [] \<and> sc t > s_minus_one ops \<and>
           (\<forall>u. selection bmap x y uncovered_ids u \<noteq> [] \<longrightarrow>
                 sc u \<le> sc t \<and> (fba_rank u < fba_rank t \<longrightarrow> sc u < sc t))"
    then obtain t where
      rt: "r = Some (t, map fst (selection bmap x y uncovered_ids t), sc t)"
      and ne: "selection bmap x y uncovered_ids t \<noteq> []"
      and gt: "sc t > s_minus_one ops"
      and best: "\<And>u. selection bmap x y uncovered_ids u \<noteq> [] \<Longrightarrow>
                 sc u \<le> sc t \<and> (fba_rank u < fba_rank t \<longrightarrow> sc u < sc t)"
      by blast
    have none: "\<not> (\<forall>atype s. selection bmap x y uncovered_ids atype \<noteq> [] \<and>
                selection_score ops prefer_capacity bmap x y uncovered_ids atype = Inr s
                \<longrightarrow> \<not> s > s_minus_one ops)"
      using ne sc[OF ne] gt by blast
    have fwd: "\<forall>u s. selection bmap x y uncovered_ids u \<noteq> [] \<and>
                    selection_score ops prefer_capacity bmap x y uncovered_ids u = Inr s
                    \<longrightarrow> s \<le> sc t \<and> (fba_rank u < fba_rank t \<longrightarrow> s < sc t)"
      using best sc_eq by blast
    have bwd: "atype = t \<and> selected = map fst (selection bmap x y uncovered_ids t) \<and> s1 = sc t"
      if h: "selection bmap x y uncovered_ids atype \<noteq> []"
        "selected = map fst (selection bmap x y uncovered_ids atype)"
        "selection_score ops prefer_capacity bmap x y uncovered_ids atype = Inr s1"
        "\<forall>u s. selection bmap x y uncovered_ids u \<noteq> [] \<and>
                    selection_score ops prefer_capacity bmap x y uncovered_ids u = Inr s
                    \<longrightarrow> s \<le> s1 \<and> (fba_rank u < fba_rank atype \<longrightarrow> s < s1)"
      for atype selected s1
    proof -
      have s1: "s1 = sc atype" by (rule sc_eq[OF h(1) h(3)])
      from best[OF h(1)] have 1: "sc atype \<le> sc t"
        and 2: "fba_rank atype < fba_rank t \<longrightarrow> sc atype < sc t" by blast+
      from h(4) ne sc[OF ne] have 3: "sc t \<le> s1"
        and 4: "fba_rank t < fba_rank atype \<longrightarrow> sc t < s1" by blast+
      from 1 3 s1 have e: "sc atype = sc t" by simp
      with 2 4 s1 have "fba_rank atype = fba_rank t" by auto
      then have "atype = t" by (rule fba_rank_inj)
      with h(2) s1 show ?thesis by simp
    qed
    from rt have "r \<noteq> None" by simp
    with none have A: "r = None \<longleftrightarrow>
           (\<forall>atype s. selection bmap x y uncovered_ids atype \<noteq> [] \<and>
                selection_score ops prefer_capacity bmap x y uncovered_ids atype = Inr s
                \<longrightarrow> \<not> s > s_minus_one ops)"
      by blast
    have B: "r = Some (atype, selected, s1) \<longleftrightarrow>
             selection bmap x y uncovered_ids atype \<noteq> [] \<and>
             selected = map fst (selection bmap x y uncovered_ids atype) \<and>
             selection_score ops prefer_capacity bmap x y uncovered_ids atype = Inr s1 \<and>
             s1 > s_minus_one ops \<and>
             (\<forall>t s. selection bmap x y uncovered_ids t \<noteq> [] \<and>
                    selection_score ops prefer_capacity bmap x y uncovered_ids t = Inr s
                    \<longrightarrow> s \<le> s1 \<and> (fba_rank t < fba_rank atype \<longrightarrow> s < s1))"
      for atype selected s1
    proof
      assume "r = Some (atype, selected, s1)"
      with rt have "atype = t" "selected = map fst (selection bmap x y uncovered_ids t)"
        "s1 = sc t" by simp_all
      with ne sc[OF ne] gt fwd
      show "selection bmap x y uncovered_ids atype \<noteq> [] \<and>
             selected = map fst (selection bmap x y uncovered_ids atype) \<and>
             selection_score ops prefer_capacity bmap x y uncovered_ids atype = Inr s1 \<and>
             s1 > s_minus_one ops \<and>
             (\<forall>t s. selection bmap x y uncovered_ids t \<noteq> [] \<and>
                    selection_score ops prefer_capacity bmap x y uncovered_ids t = Inr s
                    \<longrightarrow> s \<le> s1 \<and> (fba_rank t < fba_rank atype \<longrightarrow> s < s1))"
        by simp
    next
      assume "selection bmap x y uncovered_ids atype \<noteq> [] \<and>
             selected = map fst (selection bmap x y uncovered_ids atype) \<and>
             selection_score ops prefer_capacity bmap x y uncovered_ids atype = Inr s1 \<and>
             s1 > s_minus_one ops \<and>
             (\<forall>t s. selection bmap x y uncovered_ids t \<noteq> [] \<and>
                    selection_score ops prefer_capacity bmap x y uncovered_ids t = Inr s
                    \<longrightarrow> s \<le> s1 \<and> (fba_rank t < fba_rank atype \<longrightarrow> s < s1))"
      then have "atype = t \<and> selected = map fst (selection bmap x y uncovered_ids t) \<and> s1 = sc t"
        using bwd[of atype selected s1] by blast
      with rt show "r = Some (atype, selected, s1)" by simp
    qed
    from A B show ?thesis by blast
  qed
  with r show "\<exists>r. find_best_antenna ops x y uncovered_ids bmap prefer_capacity = Inr r \<and>
        (r = None \<longleftrightarrow>
           (\<forall>atype s. selection bmap x y uncovered_ids atype \<noteq> [] \<and>
                selection_score ops prefer_capacity bmap x y uncovered_ids atype = Inr s
                \<longrightarrow> \<not> s > s_minus_one ops)) \<and>
        (\<forall>atype selected sc.
           r = Some (atype, selected, sc) \<longleftrightarrow>
             selection bmap x y uncovered_ids atype \<noteq> [] \<and>
             selected = map fst (selection bmap x y uncovered_ids atype) \<and>
             selection_score ops prefer_capacity bmap x y uncovered_ids atype = Inr sc \<and>
             sc > s_minus_one ops \<and>
             (\<forall>t s. selection bmap x y uncovered_ids t \<noteq> [] \<and>
                    selection_score ops prefer_capacity bmap x y uncovered_ids t = Inr s
                    \<longrightarrow> s \<le> sc \<and> (fba_rank t < fba_rank atype \<longrightarrow> s < sc)))"
    by blast
qed

theorem find_best_antenna_packing_witness:
  "set [1, 2, 3] \<subseteq> dom (mk_bmap ex_buildings) \<and>
   list_all (\<lambda>t. \<exists>s. selection_score ex_sops False (mk_bmap ex_buildings) 0 0 [1, 2, 3] t = Inr s)
     [Density, MaxRange, Spot, Nano] \<and>
   find_best_antenna ex_sops 0 0 [1, 2, 3] (mk_bmap ex_buildings) False =
     Inr (Some (Nano, [1, 2], 101 / 25)) \<and>
   selection (mk_bmap ex_buildings) 0 0 [1, 2, 3] Nano = [(1, 100), (2, 100)] \<and>
   sum_list (map snd (selection (mk_bmap ex_buildings) 0 0 [1, 2, 3] Nano)) \<le> capacity Nano \<and>
   selection_score ex_sops False (mk_bmap ex_buildings) 0 0 [1, 2, 3] Nano = Inr (101 / 25)"
proof -
  have h1: "set [1, 2, 3] \<subseteq> dom (mk_bmap ex_buildings)"
    by (simp add: ex_bmap)
  have h2: "\<forall>atype. selection (mk_bmap ex_buildings) 0 0 [1, 2, 3] atype \<noteq> [] \<longrightarrow>
     (\<exists>s. selection_score ex_sops False (mk_bmap ex_buildings) 0 0 [1, 2, 3] atype = Inr s)"
    using ex_scores by blast
  have h2': "list_all (\<lambda>t. \<exists>s. selection_score ex_sops False (mk_bmap ex_buildings) 0 0 [1, 2, 3] t = Inr s)
     [Density, MaxRange, Spot, Nano]"
    unfolding list_all_iff using ex_scores by blast
  note t = find_best_antenna_packing[OF h1 h2]
  from t have cap:
    "sum_list (map snd (selection (mk_bmap ex_buildings) 0 0 [1, 2, 3] Nano)) \<le> capacity Nano"
    by blast
  from t obtain r where
    r: "find_best_antenna ex_sops 0 0 [1, 2, 3] (mk_bmap ex_buildings) False = Inr r"
    and some: "\<forall>atype selected sc.
           r = Some (atype, selected, sc) \<longleftrightarrow>
             selection (mk_bmap ex_buildings) 0 0 [1, 2, 3] atype \<noteq> [] \<and>
             selected = map fst (selection (mk_bmap ex_buildings) 0 0 [1, 2, 3] atype) \<and>
             selection_score ex_sops False (mk_bmap ex_buildings) 0 0 [1, 2, 3] atype = Inr sc \<and>
             sc > s_minus_one ex_sops \<and>
             (\<forall>t s. selection (mk_bmap ex_buildings) 0 0 [1, 2, 3] t \<noteq> [] \<and>
                    selection_score ex_sops False (mk_bmap ex_buildings) 0 0 [1, 2, 3] t = Inr s
                    \<longrightarrow> s \<le> sc \<and> (fba_rank t < fba_rank atype \<longrightarrow> s < sc))"
    by blast
  from r[unfolded ex_find_best] have "r = Some (Nano, [1, 2], 101 / 25)"
    by (simp only: sum.inject)
  with some have
    "selection_score ex_sops False (mk_bmap ex_buildings) 0 0 [1, 2, 3] Nano = Inr (101 / 25)"
    by blast
  with h1 h2' ex_find_best ex_selection cap show ?thesis by blast
qed

section \<open>Properties of \<^verbatim>\<open>solve_advanced\<close>\<close>

























section \<open>Properties of the annealing operators\<close>

lemma randbelow_less: "0 < n \<Longrightarrow> fst (randbelow n g) < n"
  by (simp add: randbelow_def)













end
